theory Spec2Isabelle
  imports Complex_Main "HOL-Library.Word"
begin



section \<open>Raw images\<close>

text \<open>
  The decoded form of an image, as \<open>sharp(...).raw().ensureAlpha().toBuffer({ resolveWithObject:
  true })\<close> hands it to the scanning code: \<open>info.width\<close>, \<open>info.height\<close>, \<open>info.channels\<close> and
  the byte buffer \<open>data\<close>, row after row, \<open>channels\<close> bytes for each pixel. Coordinates and
  sizes are JavaScript numbers holding integers; they are modelled as \<open>int\<close>.
\<close>

record raw_image =
  info_width :: int
  info_height :: int
  info_channels :: int
  data :: "8 word list"

text \<open>
  The test of the four scanning loops,
  \<^verbatim>\<open>const idx = (y * info.width + x) * channels;
  const alpha = channels === 4 ? data[idx + 3] : 255;
  if (alpha > alphaThreshold)\<close>.
  Reading a buffer outside its range gives \<open>undefined\<close> in JavaScript, and
  \<open>undefined > alphaThreshold\<close> is false.
\<close>

definition alpha_exceeds :: "raw_image \<Rightarrow> int \<Rightarrow> int \<Rightarrow> int \<Rightarrow> bool" where
  "alpha_exceeds img alphaThreshold x y =
     (let idx = (y * info_width img + x) * info_channels img in
      if info_channels img = 4
      then 0 \<le> idx + 3 \<and> idx + 3 < int (length (data img)) \<and>
           alphaThreshold < uint (data img ! nat (idx + 3))
      else alphaThreshold < 255)"

section \<open>getContentBounds\<close>

text \<open>
  The inner loop of the top and of the bottom scan: \<open>for (let x = 0; x < info.width; x++)\<close>,
  which assigns \<open>y\<close> to the variable of the outer loop and breaks at the first pixel of row
  \<open>y\<close> whose alpha exceeds the threshold. \<open>cur\<close> is the value of that variable so far.
\<close>

function row_loop :: "raw_image \<Rightarrow> int \<Rightarrow> int \<Rightarrow> int \<Rightarrow> int \<Rightarrow> int" where
  "row_loop img alphaThreshold y x cur =
     (if x < info_width img
      then (if alpha_exceeds img alphaThreshold x y then y
            else row_loop img alphaThreshold y (x + 1) cur)
      else cur)"
  by pat_completeness auto
termination
  by (relation "measure (\<lambda>(img, t, y, x, cur). nat (info_width img - x))") auto

text \<open>
  The inner loop of the left and of the right scan:
  \<open>for (let y = minY; y <= maxY; y++)\<close>, assigning \<open>x\<close> and breaking at the first hit in
  column \<open>x\<close>.
\<close>

function col_loop :: "raw_image \<Rightarrow> int \<Rightarrow> int \<Rightarrow> int \<Rightarrow> int \<Rightarrow> int \<Rightarrow> int" where
  "col_loop img alphaThreshold x y maxY cur =
     (if y \<le> maxY
      then (if alpha_exceeds img alphaThreshold x y then x
            else col_loop img alphaThreshold x (y + 1) maxY cur)
      else cur)"
  by pat_completeness auto
termination
  by (relation "measure (\<lambda>(img, t, x, y, maxY, cur). nat (maxY + 1 - y))") auto

text \<open>\<open>for (let y = 0; y < info.height && minY === info.height; y++)\<close>\<close>

function top_loop :: "raw_image \<Rightarrow> int \<Rightarrow> int \<Rightarrow> int \<Rightarrow> int" where
  "top_loop img alphaThreshold y minY =
     (if y < info_height img \<and> minY = info_height img
      then top_loop img alphaThreshold (y + 1) (row_loop img alphaThreshold y 0 minY)
      else minY)"
  by pat_completeness auto
termination
  by (relation "measure (\<lambda>(img, t, y, minY). nat (info_height img - y))") auto

text \<open>\<open>for (let y = info.height - 1; y >= 0 && maxY === 0; y--)\<close>\<close>

function bottom_loop :: "raw_image \<Rightarrow> int \<Rightarrow> int \<Rightarrow> int \<Rightarrow> int" where
  "bottom_loop img alphaThreshold y maxY =
     (if y \<ge> 0 \<and> maxY = 0
      then bottom_loop img alphaThreshold (y - 1) (row_loop img alphaThreshold y 0 maxY)
      else maxY)"
  by pat_completeness auto
termination
  by (relation "measure (\<lambda>(img, t, y, maxY). nat (y + 1))") auto

text \<open>\<open>for (let x = 0; x < info.width && minX === info.width; x++)\<close>\<close>

function left_loop :: "raw_image \<Rightarrow> int \<Rightarrow> int \<Rightarrow> int \<Rightarrow> int \<Rightarrow> int \<Rightarrow> int" where
  "left_loop img alphaThreshold minY maxY x minX =
     (if x < info_width img \<and> minX = info_width img
      then left_loop img alphaThreshold minY maxY (x + 1)
             (col_loop img alphaThreshold x minY maxY minX)
      else minX)"
  by pat_completeness auto
termination
  by (relation "measure (\<lambda>(img, t, minY, maxY, x, minX). nat (info_width img - x))") auto

text \<open>\<open>for (let x = info.width - 1; x >= 0 && maxX === 0; x--)\<close>\<close>

function right_loop :: "raw_image \<Rightarrow> int \<Rightarrow> int \<Rightarrow> int \<Rightarrow> int \<Rightarrow> int \<Rightarrow> int" where
  "right_loop img alphaThreshold minY maxY x maxX =
     (if x \<ge> 0 \<and> maxX = 0
      then right_loop img alphaThreshold minY maxY (x - 1)
             (col_loop img alphaThreshold x minY maxY maxX)
      else maxX)"
  by pat_completeness auto
termination
  by (relation "measure (\<lambda>(img, t, minY, maxY, x, maxX). nat (x + 1))") auto

declare row_loop.simps [simp del] col_loop.simps [simp del] top_loop.simps [simp del]
  bottom_loop.simps [simp del] left_loop.simps [simp del] right_loop.simps [simp del]

text \<open>The object that \<open>getContentBounds\<close> returns.\<close>

record content_bounds =
  b_top :: int
  b_bottom :: int
  b_left :: int
  b_right :: int
  b_height :: int
  b_width :: int

text \<open>
  The four scans in the order of the source, from the initial values
  \<open>minX = info.width, minY = info.height, maxX = 0, maxY = 0\<close>. The threshold is a parameter
  here; \<open>getContentBounds\<close> fixes it to 1.
\<close>

definition scan_bounds :: "int \<Rightarrow> raw_image \<Rightarrow> content_bounds" where
  "scan_bounds alphaThreshold img =
     (let minY = top_loop img alphaThreshold 0 (info_height img);
          maxY = bottom_loop img alphaThreshold (info_height img - 1) 0;
          minX = left_loop img alphaThreshold minY maxY 0 (info_width img);
          maxX = right_loop img alphaThreshold minY maxY (info_width img - 1) 0
      in \<lparr> b_top = minY, b_bottom = maxY, b_left = minX, b_right = maxX,
           b_height = maxY - minY + 1, b_width = maxX - minX + 1 \<rparr>)"

definition getContentBounds :: "raw_image \<Rightarrow> content_bounds" where
  "getContentBounds img = scan_bounds 1 img"

section \<open>The transparent trim of processJerseyImage\<close>

text \<open>
  \<open>processJerseyImage\<close> repeats the four scans inline, with \<open>alphaThreshold = 5\<close> and one
  more variable, \<open>hasContent\<close>, set at every hit. The loops below carry the scanned variable
  together with \<open>hasContent\<close>.
\<close>

function row_loop_hc :: "raw_image \<Rightarrow> int \<Rightarrow> int \<Rightarrow> int \<Rightarrow> int \<times> bool \<Rightarrow> int \<times> bool" where
  "row_loop_hc img alphaThreshold y x s =
     (if x < info_width img
      then (if alpha_exceeds img alphaThreshold x y then (y, True)
            else row_loop_hc img alphaThreshold y (x + 1) s)
      else s)"
  by pat_completeness auto
termination
  by (relation "measure (\<lambda>(img, t, y, x, s). nat (info_width img - x))") auto

function col_loop_hc ::
  "raw_image \<Rightarrow> int \<Rightarrow> int \<Rightarrow> int \<Rightarrow> int \<Rightarrow> int \<times> bool \<Rightarrow> int \<times> bool" where
  "col_loop_hc img alphaThreshold x y maxY s =
     (if y \<le> maxY
      then (if alpha_exceeds img alphaThreshold x y then (x, True)
            else col_loop_hc img alphaThreshold x (y + 1) maxY s)
      else s)"
  by pat_completeness auto
termination
  by (relation "measure (\<lambda>(img, t, x, y, maxY, s). nat (maxY + 1 - y))") auto

function top_loop_hc :: "raw_image \<Rightarrow> int \<Rightarrow> int \<Rightarrow> int \<times> bool \<Rightarrow> int \<times> bool" where
  "top_loop_hc img alphaThreshold y s =
     (if y < info_height img \<and> fst s = info_height img
      then top_loop_hc img alphaThreshold (y + 1) (row_loop_hc img alphaThreshold y 0 s)
      else s)"
  by pat_completeness auto
termination
  by (relation "measure (\<lambda>(img, t, y, s). nat (info_height img - y))") auto

function bottom_loop_hc :: "raw_image \<Rightarrow> int \<Rightarrow> int \<Rightarrow> int \<times> bool \<Rightarrow> int \<times> bool" where
  "bottom_loop_hc img alphaThreshold y s =
     (if y \<ge> 0 \<and> fst s = 0
      then bottom_loop_hc img alphaThreshold (y - 1) (row_loop_hc img alphaThreshold y 0 s)
      else s)"
  by pat_completeness auto
termination
  by (relation "measure (\<lambda>(img, t, y, s). nat (y + 1))") auto

function left_loop_hc ::
  "raw_image \<Rightarrow> int \<Rightarrow> int \<Rightarrow> int \<Rightarrow> int \<Rightarrow> int \<times> bool \<Rightarrow> int \<times> bool" where
  "left_loop_hc img alphaThreshold minY maxY x s =
     (if x < info_width img \<and> fst s = info_width img
      then left_loop_hc img alphaThreshold minY maxY (x + 1)
             (col_loop_hc img alphaThreshold x minY maxY s)
      else s)"
  by pat_completeness auto
termination
  by (relation "measure (\<lambda>(img, t, minY, maxY, x, s). nat (info_width img - x))") auto

function right_loop_hc ::
  "raw_image \<Rightarrow> int \<Rightarrow> int \<Rightarrow> int \<Rightarrow> int \<Rightarrow> int \<times> bool \<Rightarrow> int \<times> bool" where
  "right_loop_hc img alphaThreshold minY maxY x s =
     (if x \<ge> 0 \<and> fst s = 0
      then right_loop_hc img alphaThreshold minY maxY (x - 1)
             (col_loop_hc img alphaThreshold x minY maxY s)
      else s)"
  by pat_completeness auto
termination
  by (relation "measure (\<lambda>(img, t, minY, maxY, x, s). nat (x + 1))") auto

declare row_loop_hc.simps [simp del] col_loop_hc.simps [simp del] top_loop_hc.simps [simp del]
  bottom_loop_hc.simps [simp del] left_loop_hc.simps [simp del] right_loop_hc.simps [simp del]

record scan_vars =
  minX :: int
  minY :: int
  maxX :: int
  maxY :: int
  hasContent :: bool

text \<open>
  The inline scan, from \<open>minX = info.width, minY = info.height, maxX = 0, maxY = 0\<close> and
  \<open>hasContent = false\<close>.
\<close>

definition inline_scan :: "raw_image \<Rightarrow> scan_vars" where
  "inline_scan img =
     (let alphaThreshold = 5;
          (minY', hc1) = top_loop_hc img alphaThreshold 0 (info_height img, False);
          (maxY', hc2) = bottom_loop_hc img alphaThreshold (info_height img - 1) (0, hc1);
          (minX', hc3) = left_loop_hc img alphaThreshold minY' maxY' 0 (info_width img, hc2);
          (maxX', hc4) = right_loop_hc img alphaThreshold minY' maxY' (info_width img - 1) (0, hc3)
      in \<lparr> minX = minX', minY = minY', maxX = maxX', maxY = maxY', hasContent = hc4 \<rparr>)"

text \<open>
  The error that the \<open>catch\<close> of \<open>processJerseyImage\<close> throws,
  \<open>Image processing failed: ...\<close>, whatever was thrown inside the \<open>try\<close>.
\<close>

datatype error = ProcessingFailed

text \<open>
  A buffer as \<open>toBuffer()\<close> returns it: an encoded image, which sharp reads back, or the bare
  bytes of a raw output, which have no header and which \<open>sharp(buffer)\<close> cannot read.
\<close>

datatype image_buffer = Encoded raw_image | Headerless "8 word list"

definition sharp_read :: "image_buffer \<Rightarrow> error + raw_image" where
  "sharp_read buffer =
     (case buffer of Encoded im \<Rightarrow> Inr im | Headerless bytes \<Rightarrow> Inl ProcessingFailed)"

text \<open>
  The region copy of sharp's \<open>extract({ left, top, width, height })\<close> on the decoded image
  (\<open>extract\<close> is a command name of Isabelle, hence the longer name): byte \<open>i\<close> of the
  result is the byte at the same offset of the same row of the region.
\<close>

definition extract_region :: "raw_image \<Rightarrow> int \<Rightarrow> int \<Rightarrow> int \<Rightarrow> int \<Rightarrow> raw_image" where
  "extract_region img left' top' w h =
     (let rowLen = nat (w * info_channels img);
          srcLen = nat (info_width img * info_channels img);
          off = nat (left' * info_channels img)
      in \<lparr> info_width = w, info_height = h, info_channels = info_channels img,
           data = map (\<lambda>i. data img ! ((nat top' + i div rowLen) * srcLen + off + i mod rowLen))
                   [0..<nat (w * h * info_channels img)] \<rparr>)"

text \<open>
  Step 1 of \<open>processJerseyImage\<close>. \<open>sharp_trim\<close> stands for sharp's own
  \<open>trim({ threshold: 0 })\<close>, an operation of the image library, which may throw; what it
  returns is the first \<open>trimmedBuffer\<close>. The source compares sizes only. In the branch
  that extracts, \<open>inputImage\<close> is the object on which \<open>raw()\<close> was called for the scan, so
  \<open>inputImage.extract(...).toBuffer()\<close> gives the bytes of the region without a header, and
  the next line, \<open>sharp(trimmedBuffer).metadata()\<close>, has to read them. The result of the
  step is the decoded \<open>trimmedBuffer\<close>, whose size is \<open>width\<close> and \<open>height\<close>.
\<close>

definition trim_stage ::
  "(raw_image \<Rightarrow> error + raw_image) \<Rightarrow> raw_image \<Rightarrow> error + raw_image" where
  "trim_stage sharp_trim img =
     (case sharp_trim img of
        Inl e \<Rightarrow> Inl e
      | Inr trimmedBuffer \<Rightarrow>
          if info_width img = info_width trimmedBuffer \<and>
             info_height img = info_height trimmedBuffer
          then (let s = inline_scan img in
                if hasContent s \<and> minX s < maxX s \<and> minY s < maxY s
                then (let contentWidth = maxX s - minX s + 1;
                          contentHeight = maxY s - minY s + 1
                      in if minX s > 0 \<or> minY s > 0 \<or> maxX s < info_width img - 1
                            \<or> maxY s < info_height img - 1
                         then sharp_read
                                (Headerless
                                   (data (extract_region img (minX s) (minY s)
                                            contentWidth contentHeight)))
                         else Inr trimmedBuffer)
                else Inr trimmedBuffer)
          else Inr trimmedBuffer)"

text \<open>
  An instance of \<open>sharp_trim\<close> for the examples below: it throws on an image under 3 by 3,
  removes the border rows and columns in which every pixel has alpha 0, and leaves an image
  without such a border, or without any pixel of alpha above 0, as it is.
\<close>

definition border_trim :: "raw_image \<Rightarrow> error + raw_image" where
  "border_trim img =
     (if info_width img < 3 \<or> info_height img < 3 then Inl ProcessingFailed
      else (let b = scan_bounds 0 img in
            if b_top b \<le> b_bottom b \<and> b_left b \<le> b_right b
            then Inr (extract_region img (b_left b) (b_top b) (b_width b) (b_height b))
            else Inr img))"

section \<open>The vertical flip\<close>

text \<open>
  Modelled from the spec: sharp's \<open>flip()\<close>, which the source calls and which is not part of
  the sources. The spec's Mirrorer has identical dimensions and channel layout, rows reversed
  top to bottom, and every byte of a pixel kept: byte \<open>i\<close> of the result, at offset
  \<open>i mod rowLen\<close> of row \<open>i div rowLen\<close>, is the byte at that offset of row
  \<open>height - 1 - i div rowLen\<close> of the input.
\<close>

definition flip_index :: "nat \<Rightarrow> nat \<Rightarrow> nat \<Rightarrow> nat" where
  "flip_index h rowLen i = (h - 1 - i div rowLen) * rowLen + i mod rowLen"

definition flip :: "raw_image \<Rightarrow> raw_image" where
  "flip img =
     img \<lparr> data := map (\<lambda>i. data img ! flip_index (nat (info_height img))
                                   (nat (info_width img * info_channels img)) i)
                     [0..<length (data img)] \<rparr>"

text \<open>What sharp guarantees of a decoded image: positive sizes and a full buffer.\<close>

definition well_formed :: "raw_image \<Rightarrow> bool" where
  "well_formed img \<longleftrightarrow>
     0 < info_width img \<and> 0 < info_height img \<and> 0 < info_channels img \<and>
     length (data img) = nat (info_width img * info_height img * info_channels img)"

section \<open>The collar\<close>

text \<open>
  What is at the collar's path: no file, a file on which sharp's \<open>metadata()\<close> throws, or an
  image of the given width and height.
\<close>

datatype collar_file = CollarMissing | CollarUnreadable | CollarReadable int int

text \<open>
  The collar variables of both programs; \<open>collarBuffer\<close> holds the size of the resized collar
  or is \<open>None\<close> for \<open>null\<close> (the resampled pixels are the image library's).
\<close>

record collar_vars =
  collarBuffer :: "(int \<times> int) option"
  collarWidth :: int
  collarHeight :: int
  collarLeft :: int
  collarTop :: int

definition collar_init :: collar_vars where
  "collar_init =
     \<lparr> collarBuffer = None, collarWidth = 0, collarHeight = 0, collarLeft = 0, collarTop = 0 \<rparr>"

text \<open>
  The body of the \<open>if\<close> on a readable collar, the same in both programs, when
  \<open>resize\<close> succeeds. \<open>Math.floor(collarMeta.width * 0.5)\<close> of an integer width is
  \<open>div 2\<close>, which rounds towards minus infinity as \<open>Math.floor\<close> does.
\<close>

definition collar_resized :: "int \<Rightarrow> int \<Rightarrow> int \<Rightarrow> collar_vars" where
  "collar_resized metaWidth metaHeight width =
     (let collarWidth' = metaWidth div 2;
          collarHeight' = metaHeight div 2
      in \<lparr> collarBuffer = Some (collarWidth', collarHeight'),
           collarWidth = collarWidth', collarHeight = collarHeight',
           collarLeft = (width - collarWidth') div 2, collarTop = 0 \<rparr>)"

text \<open>
  Step 4 of \<open>processJerseyImage\<close>: \<open>if (collarPath && fs.existsSync(collarPath))\<close>, inside the
  \<open>try\<close> of the whole function, whose \<open>catch\<close> throws \<open>Image processing failed\<close>.
  \<open>None\<close> is the \<open>null\<close> path. sharp's \<open>resize\<close> throws unless both sizes are positive.
\<close>

definition prepare_collar :: "collar_file option \<Rightarrow> int \<Rightarrow> error + collar_vars" where
  "prepare_collar collarPath width =
     (case collarPath of
        None \<Rightarrow> Inr collar_init
      | Some CollarMissing \<Rightarrow> Inr collar_init
      | Some CollarUnreadable \<Rightarrow> Inl ProcessingFailed
      | Some (CollarReadable metaWidth metaHeight) \<Rightarrow>
          if 0 < metaWidth div 2 \<and> 0 < metaHeight div 2
          then Inr (collar_resized metaWidth metaHeight width)
          else Inl ProcessingFailed)"

text \<open>
  Step 3 of \<open>createTightJerseyTemplate\<close> in process-jersey.js: the same \<open>if\<close> in a
  \<open>try\<close> of its own, whose \<open>catch\<close> only logs. When \<open>resize\<close> throws, the two sizes are
  already assigned and \<open>collarBuffer\<close> is still \<open>null\<close>.
\<close>

definition script_prepare_collar :: "collar_file \<Rightarrow> int \<Rightarrow> collar_vars" where
  "script_prepare_collar collar width =
     (case collar of
        CollarMissing \<Rightarrow> collar_init
      | CollarUnreadable \<Rightarrow> collar_init
      | CollarReadable metaWidth metaHeight \<Rightarrow>
          if 0 < metaWidth div 2 \<and> 0 < metaHeight div 2
          then collar_resized metaWidth metaHeight width
          else collar_init \<lparr> collarWidth := metaWidth div 2,
                              collarHeight := metaHeight div 2 \<rparr>)"

section \<open>Stacking and composition\<close>

definition backTop :: "content_bounds \<Rightarrow> int" where
  "backTop backBounds = 0 - b_top backBounds"

definition backBottomContentY :: "content_bounds \<Rightarrow> int" where
  "backBottomContentY backBounds = backTop backBounds + b_bottom backBounds"

definition frontTop :: "content_bounds \<Rightarrow> content_bounds \<Rightarrow> int \<Rightarrow> int" where
  "frontTop backBounds frontBounds gapBetweenImages =
     backBottomContentY backBounds + gapBetweenImages - b_top frontBounds"

definition frontBottomContentY :: "content_bounds \<Rightarrow> content_bounds \<Rightarrow> int \<Rightarrow> int" where
  "frontBottomContentY backBounds frontBounds gapBetweenImages =
     frontTop backBounds frontBounds gapBetweenImages + b_bottom frontBounds"

definition totalHeight :: "content_bounds \<Rightarrow> content_bounds \<Rightarrow> int \<Rightarrow> int" where
  "totalHeight backBounds frontBounds gapBetweenImages =
     frontBottomContentY backBounds frontBounds gapBetweenImages + 1"

text \<open>The entries of \<open>compositeLayers\<close> and the composite that sharp renders from them.\<close>

datatype layer_input = JerseySide raw_image | CollarOverlay int int

record layer =
  l_input :: layer_input
  l_top :: int
  l_left :: int

record composite =
  c_width :: int
  c_height :: int
  c_layers :: "layer list"

text \<open>\<open>if (collarBuffer) { collarTop = ...; compositeLayers.push(...) }\<close>\<close>

definition collar_layers :: "collar_vars \<Rightarrow> int \<Rightarrow> layer list" where
  "collar_layers c totalHeight' =
     (case collarBuffer c of
        None \<Rightarrow> []
      | Some (w, h) \<Rightarrow>
          [\<lparr> l_input = CollarOverlay w h,
             l_top = (totalHeight' - collarHeight c) div 2,
             l_left = collarLeft c \<rparr>])"

text \<open>The width and height of the image of a layer.\<close>

fun layer_size :: "layer_input \<Rightarrow> int \<times> int" where
  "layer_size (JerseySide im) = (info_width im, info_height im)"
| "layer_size (CollarOverlay w h) = (w, h)"

definition fits_canvas :: "int \<Rightarrow> int \<Rightarrow> layer \<Rightarrow> bool" where
  "fits_canvas width height l \<longleftrightarrow>
     fst (layer_size (l_input l)) \<le> width \<and> snd (layer_size (l_input l)) \<le> height"

text \<open>
  Step 6, \<open>sharp({ create: { width, height, ... } }).composite(compositeLayers).png().toBuffer()\<close>,
  as far as the image library can refuse it: \<open>create\<close> throws unless width and height are
  positive, and \<open>composite\<close> throws on a layer that is wider or higher than the canvas.
\<close>

definition sharp_composite :: "int \<Rightarrow> int \<Rightarrow> layer list \<Rightarrow> error + composite" where
  "sharp_composite width height compositeLayers =
     (if 0 < width \<and> 0 < height \<and> list_all (fits_canvas width height) compositeLayers
      then Inr \<lparr> c_width = width, c_height = height, c_layers = compositeLayers \<rparr>
      else Inl ProcessingFailed)"

text \<open>
  \<open>processJerseyImage(inputPath, collarPath, gapBetweenImages)\<close> on the decoded input. The
  result is the composite that is encoded and returned, or the error thrown by the
  \<open>catch\<close>.
\<close>

definition processJerseyImage ::
  "(raw_image \<Rightarrow> error + raw_image) \<Rightarrow> raw_image \<Rightarrow> collar_file option \<Rightarrow> int
     \<Rightarrow> error + composite" where
  "processJerseyImage sharp_trim img collarPath gapBetweenImages =
     (case trim_stage sharp_trim img of
        Inl e \<Rightarrow> Inl e
      | Inr trimmedBuffer \<Rightarrow>
          (let width = info_width trimmedBuffer;
               backSide = flip trimmedBuffer;
               frontSide = trimmedBuffer;
               backBounds = getContentBounds backSide;
               frontBounds = getContentBounds frontSide
           in case prepare_collar collarPath width of
                Inl e \<Rightarrow> Inl e
              | Inr c \<Rightarrow>
                  sharp_composite width
                    (totalHeight backBounds frontBounds gapBetweenImages)
                    ([\<lparr> l_input = JerseySide backSide, l_top = backTop backBounds,
                        l_left = 0 \<rparr>,
                      \<lparr> l_input = JerseySide frontSide,
                        l_top = frontTop backBounds frontBounds gapBetweenImages,
                        l_left = 0 \<rparr>]
                     @ collar_layers c (totalHeight backBounds frontBounds gapBetweenImages))))"

section \<open>Notions used in the statements and proofs\<close>

text \<open>The alpha byte of pixel \<open>(x, y)\<close> of an image.\<close>

definition alpha_at :: "raw_image \<Rightarrow> int \<Rightarrow> int \<Rightarrow> 8 word" where
  "alpha_at img x y = data img ! nat ((y * info_width img + x) * info_channels img + 3)"

text \<open>
  Row \<open>y\<close> has a pixel that passes the test of the loops; column \<open>x\<close> has one in the rows
  \<open>lo\<close> to \<open>hi\<close>.
\<close>

definition row_has :: "raw_image \<Rightarrow> int \<Rightarrow> int \<Rightarrow> bool" where
  "row_has img t y = (\<exists>x. 0 \<le> x \<and> x < info_width img \<and> alpha_exceeds img t x y)"

definition col_has :: "raw_image \<Rightarrow> int \<Rightarrow> int \<Rightarrow> int \<Rightarrow> int \<Rightarrow> bool" where
  "col_has img t lo hi x = (\<exists>y. lo \<le> y \<and> y \<le> hi \<and> alpha_exceeds img t x y)"

definition first_row :: "raw_image \<Rightarrow> int \<Rightarrow> int \<Rightarrow> bool" where
  "first_row img t r \<longleftrightarrow> 0 \<le> r \<and> r < info_height img \<and> row_has img t r \<and>
     (\<forall>y. 0 \<le> y \<and> y < r \<longrightarrow> \<not> row_has img t y)"

definition last_row :: "raw_image \<Rightarrow> int \<Rightarrow> int \<Rightarrow> bool" where
  "last_row img t r \<longleftrightarrow> 0 \<le> r \<and> r < info_height img \<and> row_has img t r \<and>
     (\<forall>y. r < y \<and> y < info_height img \<longrightarrow> \<not> row_has img t y)"

definition first_col :: "raw_image \<Rightarrow> int \<Rightarrow> int \<Rightarrow> int \<Rightarrow> int \<Rightarrow> bool" where
  "first_col img t lo hi c \<longleftrightarrow> 0 \<le> c \<and> c < info_width img \<and> col_has img t lo hi c \<and>
     (\<forall>x. 0 \<le> x \<and> x < c \<longrightarrow> \<not> col_has img t lo hi x)"

definition last_col :: "raw_image \<Rightarrow> int \<Rightarrow> int \<Rightarrow> int \<Rightarrow> int \<Rightarrow> bool" where
  "last_col img t lo hi c \<longleftrightarrow> 0 \<le> c \<and> c < info_width img \<and> col_has img t lo hi c \<and>
     (\<forall>x. c < x \<and> x < info_width img \<longrightarrow> \<not> col_has img t lo hi x)"

definition no_content :: "raw_image \<Rightarrow> int \<Rightarrow> bool" where
  "no_content img t \<longleftrightarrow> (\<forall>y. 0 \<le> y \<and> y < info_height img \<longrightarrow> \<not> row_has img t y)"

text \<open>The initial values of the four scans, which no loop has changed.\<close>

definition empty_bounds :: "raw_image \<Rightarrow> content_bounds" where
  "empty_bounds img =
     \<lparr> b_top = info_height img, b_bottom = 0, b_left = info_width img, b_right = 0,
       b_height = 0 - info_height img + 1, b_width = 0 - info_width img + 1 \<rparr>"


subsection \<open>Example images\<close>

text \<open>Three by three, every pixel fully transparent.\<close>

definition blank_3x3 :: raw_image where
  "blank_3x3 = \<lparr> info_width = 3, info_height = 3, info_channels = 4, data = replicate 36 0 \<rparr>"

text \<open>Three columns, two rows; the opaque pixels are columns 1 and 2 of row 1.\<close>

definition dot_3x2 :: raw_image where
  "dot_3x2 = \<lparr> info_width = 3, info_height = 2, info_channels = 4,
     data = [0,0,0,0, 0,0,0,0, 0,0,0,0,
             0,0,0,0, 9,9,9,255, 7,7,7,255] \<rparr>"

text \<open>
  Three by three; the middle pixel of each edge has alpha 3, the others alpha 0: no pixel is
  above alpha 5 and no border row or column is fully transparent.
\<close>

definition faint_3x3 :: raw_image where
  "faint_3x3 = \<lparr> info_width = 3, info_height = 3, info_channels = 4,
     data = [0,0,0,0, 3,3,3,3, 0,0,0,0,
             3,3,3,3, 0,0,0,0, 3,3,3,3,
             0,0,0,0, 3,3,3,3, 0,0,0,0] \<rparr>"

text \<open>Three by three; row 1 is opaque, the rows above and below hold one pixel of alpha 3.\<close>

definition stripe_3x3 :: raw_image where
  "stripe_3x3 = \<lparr> info_width = 3, info_height = 3, info_channels = 4,
     data = [0,0,0,0,   3,3,3,3,   0,0,0,0,
             1,1,1,255, 2,2,2,255, 3,3,3,255,
             0,0,0,0,   3,3,3,3,   0,0,0,0] \<rparr>"

text \<open>Three by three, every pixel opaque.\<close>

definition opaque_3x3 :: raw_image where
  "opaque_3x3 = \<lparr> info_width = 3, info_height = 3, info_channels = 4,
     data = [1,1,1,255, 2,2,2,255, 3,3,3,255,
             4,4,4,255, 5,5,5,255, 6,6,6,255,
             7,7,7,255, 8,8,8,255, 9,9,9,255] \<rparr>"

text \<open>
  Five by five; the inner three by three pixels have alpha 3, the border is fully transparent.
  \<open>faint_crop_3x3\<close> is the inner block.
\<close>

definition faint_5x5 :: raw_image where
  "faint_5x5 = \<lparr> info_width = 5, info_height = 5, info_channels = 4,
     data = [0,0,0,0, 0,0,0,0, 0,0,0,0, 0,0,0,0, 0,0,0,0,
             0,0,0,0, 9,9,9,3, 9,9,9,3, 9,9,9,3, 0,0,0,0,
             0,0,0,0, 9,9,9,3, 9,9,9,3, 9,9,9,3, 0,0,0,0,
             0,0,0,0, 9,9,9,3, 9,9,9,3, 9,9,9,3, 0,0,0,0,
             0,0,0,0, 0,0,0,0, 0,0,0,0, 0,0,0,0, 0,0,0,0] \<rparr>"

definition faint_crop_3x3 :: raw_image where
  "faint_crop_3x3 = \<lparr> info_width = 3, info_height = 3, info_channels = 4,
     data = [9,9,9,3, 9,9,9,3, 9,9,9,3,
             9,9,9,3, 9,9,9,3, 9,9,9,3,
             9,9,9,3, 9,9,9,3, 9,9,9,3] \<rparr>"

text \<open>
  Four by four; an opaque block of two by two in the middle, and one pixel of alpha 3 on each
  edge, so that no border row or column is fully transparent.
\<close>

definition padded_4x4 :: raw_image where
  "padded_4x4 = \<lparr> info_width = 4, info_height = 4, info_channels = 4,
     data = [0,0,0,0, 3,3,3,3,   0,0,0,0,   0,0,0,0,
             3,3,3,3, 1,1,1,255, 2,2,2,255, 0,0,0,0,
             0,0,0,0, 3,3,3,255, 4,4,4,255, 3,3,3,3,
             0,0,0,0, 0,0,0,0,   3,3,3,3,   0,0,0,0] \<rparr>"

text \<open>
  Three columns, four rows; the opaque content is the block of columns 1 to 2 and rows 1 to 3,
  with a transparent row above and a transparent column to the left. \<open>jersey_2x3\<close> is the
  block.
\<close>

definition jersey_3x4 :: raw_image where
  "jersey_3x4 = \<lparr> info_width = 3, info_height = 4, info_channels = 4,
     data = [0,0,0,0, 0,0,0,0,   0,0,0,0,
             0,0,0,0, 1,1,1,255, 2,2,2,255,
             0,0,0,0, 3,3,3,255, 4,4,4,255,
             0,0,0,0, 5,5,5,255, 6,6,6,255] \<rparr>"

definition jersey_2x3 :: raw_image where
  "jersey_2x3 = \<lparr> info_width = 2, info_height = 3, info_channels = 4,
     data = [1,1,1,255, 2,2,2,255,
             3,3,3,255, 4,4,4,255,
             5,5,5,255, 6,6,6,255] \<rparr>"

section \<open>The scanning loops\<close>

text \<open>Each inner loop stops at the first hit, so its result depends only on whether there is one.\<close>

lemma row_loop_eq:
  "row_loop img t y x cur =
     (if (\<exists>x'. x \<le> x' \<and> x' < info_width img \<and> alpha_exceeds img t x' y) then y else cur)"
proof (induction img t y x cur rule: row_loop.induct)
  case (1 img t y x cur)
  show ?case
  proof (cases "x < info_width img")
    case False
    then show ?thesis by (subst row_loop.simps) auto
  next
    case True
    show ?thesis
    proof (cases "alpha_exceeds img t x y")
      case True
      with \<open>x < info_width img\<close> show ?thesis by (subst row_loop.simps) auto
    next
      case False
      have "(\<exists>x'. x \<le> x' \<and> x' < info_width img \<and> alpha_exceeds img t x' y)
            = (\<exists>x'. x + 1 \<le> x' \<and> x' < info_width img \<and> alpha_exceeds img t x' y)"
        using False by (metis add1_zle_eq order_le_less)
      with 1 True False show ?thesis by (subst row_loop.simps) simp
    qed
  qed
qed

lemma row_loop_0: "row_loop img t y 0 cur = (if row_has img t y then y else cur)"
  by (simp add: row_loop_eq row_has_def)

lemma col_loop_eq:
  "col_loop img t x y hi cur =
     (if (\<exists>y'. y \<le> y' \<and> y' \<le> hi \<and> alpha_exceeds img t x y') then x else cur)"
proof (induction img t x y hi cur rule: col_loop.induct)
  case (1 img t x y hi cur)
  show ?case
  proof (cases "y \<le> hi")
    case False
    then show ?thesis by (subst col_loop.simps) auto
  next
    case True
    show ?thesis
    proof (cases "alpha_exceeds img t x y")
      case True
      with \<open>y \<le> hi\<close> show ?thesis by (subst col_loop.simps) auto
    next
      case False
      have "(\<exists>y'. y \<le> y' \<and> y' \<le> hi \<and> alpha_exceeds img t x y')
            = (\<exists>y'. y + 1 \<le> y' \<and> y' \<le> hi \<and> alpha_exceeds img t x y')"
        using False by (metis add1_zle_eq order_le_less)
      with 1 True False show ?thesis by (subst col_loop.simps) simp
    qed
  qed
qed

lemma col_loop_has: "col_loop img t x lo hi cur = (if col_has img t lo hi x then x else cur)"
  by (simp add: col_loop_eq col_has_def)

text \<open>
  What an outer loop returns when it is started from its initial value: either nothing was
  found in its range and the initial value is returned, or the first row (column) with
  content in scanning order.
\<close>

lemma top_loop_spec:
  "top_loop img t y (info_height img) = r \<Longrightarrow>
     (r = info_height img \<and> (\<forall>y'. y \<le> y' \<and> y' < info_height img \<longrightarrow> \<not> row_has img t y')) \<or>
     (y \<le> r \<and> r < info_height img \<and> row_has img t r \<and>
      (\<forall>y'. y \<le> y' \<and> y' < r \<longrightarrow> \<not> row_has img t y'))"
proof (induction "nat (info_height img - y)" arbitrary: y)
  case 0
  then have "\<not> y < info_height img" by simp
  with 0 show ?case by (subst (asm) top_loop.simps) auto
next
  case (Suc n)
  then have lt: "y < info_height img" by linarith
  show ?case
  proof (cases "row_has img t y")
    case True
    have "top_loop img t y (info_height img) = top_loop img t (y + 1) y"
      using lt True by (subst top_loop.simps) (simp add: row_loop_0)
    also have "\<dots> = y" using lt by (subst top_loop.simps) simp
    finally show ?thesis using Suc.prems True lt by auto
  next
    case False
    have "top_loop img t y (info_height img) = top_loop img t (y + 1) (info_height img)"
      using lt False by (subst top_loop.simps) (simp add: row_loop_0)
    with Suc.prems have eq: "top_loop img t (y + 1) (info_height img) = r" by simp
    have "n = nat (info_height img - (y + 1))" using Suc.hyps(2) by linarith
    from Suc.hyps(1)[OF this eq] False show ?thesis
      by (metis add1_zle_eq order_le_less zless_imp_add1_zle linorder_not_less)
  qed
qed

lemma bottom_loop_spec:
  "bottom_loop img t y 0 = r \<Longrightarrow>
     (r = 0 \<and> (\<forall>y'. 0 \<le> y' \<and> y' \<le> y \<longrightarrow> \<not> row_has img t y')) \<or>
     (0 \<le> r \<and> r \<le> y \<and> row_has img t r \<and>
      (\<forall>y'. r < y' \<and> y' \<le> y \<longrightarrow> \<not> row_has img t y'))"
proof (induction "nat (y + 1)" arbitrary: y)
  case 0
  then have "\<not> y \<ge> 0" by simp
  with 0 show ?case by (subst (asm) bottom_loop.simps) auto
next
  case (Suc n)
  then have ge: "y \<ge> 0" by linarith
  show ?case
  proof (cases "row_has img t y")
    case True
    have "bottom_loop img t y 0 = bottom_loop img t (y - 1) y"
      using ge True by (subst bottom_loop.simps) (simp add: row_loop_0)
    also have "\<dots> = y" using ge by (subst bottom_loop.simps) auto
    finally show ?thesis using Suc.prems True ge by auto
  next
    case False
    have "bottom_loop img t y 0 = bottom_loop img t (y - 1) 0"
      using ge False by (subst bottom_loop.simps) (simp add: row_loop_0)
    with Suc.prems have eq: "bottom_loop img t (y - 1) 0 = r" by simp
    have "n = nat (y - 1 + 1)" using Suc.hyps(2) by linarith
    from Suc.hyps(1)[OF this eq] False show ?thesis
      by (smt (verit))
  qed
qed

lemma left_loop_spec:
  "left_loop img t lo hi x (info_width img) = r \<Longrightarrow>
     (r = info_width img \<and> (\<forall>x'. x \<le> x' \<and> x' < info_width img \<longrightarrow> \<not> col_has img t lo hi x')) \<or>
     (x \<le> r \<and> r < info_width img \<and> col_has img t lo hi r \<and>
      (\<forall>x'. x \<le> x' \<and> x' < r \<longrightarrow> \<not> col_has img t lo hi x'))"
proof (induction "nat (info_width img - x)" arbitrary: x)
  case 0
  then have "\<not> x < info_width img" by simp
  with 0 show ?case by (subst (asm) left_loop.simps) auto
next
  case (Suc n)
  then have lt: "x < info_width img" by linarith
  show ?case
  proof (cases "col_has img t lo hi x")
    case True
    have "left_loop img t lo hi x (info_width img) = left_loop img t lo hi (x + 1) x"
      using lt True by (subst left_loop.simps) (simp add: col_loop_has)
    also have "\<dots> = x" using lt by (subst left_loop.simps) simp
    finally show ?thesis using Suc.prems True lt by auto
  next
    case False
    have "left_loop img t lo hi x (info_width img) = left_loop img t lo hi (x + 1) (info_width img)"
      using lt False by (subst left_loop.simps) (simp add: col_loop_has)
    with Suc.prems have eq: "left_loop img t lo hi (x + 1) (info_width img) = r" by simp
    have "n = nat (info_width img - (x + 1))" using Suc.hyps(2) by linarith
    from Suc.hyps(1)[OF this eq] False show ?thesis
      by (metis add1_zle_eq order_le_less zless_imp_add1_zle linorder_not_less)
  qed
qed

lemma right_loop_spec:
  "right_loop img t lo hi x 0 = r \<Longrightarrow>
     (r = 0 \<and> (\<forall>x'. 0 \<le> x' \<and> x' \<le> x \<longrightarrow> \<not> col_has img t lo hi x')) \<or>
     (0 \<le> r \<and> r \<le> x \<and> col_has img t lo hi r \<and>
      (\<forall>x'. r < x' \<and> x' \<le> x \<longrightarrow> \<not> col_has img t lo hi x'))"
proof (induction "nat (x + 1)" arbitrary: x)
  case 0
  then have "\<not> x \<ge> 0" by simp
  with 0 show ?case by (subst (asm) right_loop.simps) auto
next
  case (Suc n)
  then have ge: "x \<ge> 0" by linarith
  show ?case
  proof (cases "col_has img t lo hi x")
    case True
    have "right_loop img t lo hi x 0 = right_loop img t lo hi (x - 1) x"
      using ge True by (subst right_loop.simps) (simp add: col_loop_has)
    also have "\<dots> = x" using ge by (subst right_loop.simps) auto
    finally show ?thesis using Suc.prems True ge by auto
  next
    case False
    have "right_loop img t lo hi x 0 = right_loop img t lo hi (x - 1) 0"
      using ge False by (subst right_loop.simps) (simp add: col_loop_has)
    with Suc.prems have eq: "right_loop img t lo hi (x - 1) 0 = r" by simp
    have "n = nat (x - 1 + 1)" using Suc.hyps(2) by linarith
    from Suc.hyps(1)[OF this eq] False show ?thesis
      by (smt (verit))
  qed
qed

lemma top_loop_cases:
  "(no_content img t \<and> top_loop img t 0 (info_height img) = info_height img) \<or>
   first_row img t (top_loop img t 0 (info_height img))"
  using top_loop_spec[OF refl, of img t 0] unfolding no_content_def first_row_def by auto

lemma bottom_loop_cases:
  "(no_content img t \<and> bottom_loop img t (info_height img - 1) 0 = 0) \<or>
   last_row img t (bottom_loop img t (info_height img - 1) 0)"
  using bottom_loop_spec[OF refl, of img t "info_height img - 1"]
  unfolding no_content_def last_row_def by auto

lemma left_loop_cases:
  "((\<forall>x. 0 \<le> x \<and> x < info_width img \<longrightarrow> \<not> col_has img t lo hi x) \<and>
      left_loop img t lo hi 0 (info_width img) = info_width img) \<or>
   first_col img t lo hi (left_loop img t lo hi 0 (info_width img))"
  using left_loop_spec[OF refl, of img t lo hi 0] unfolding first_col_def by auto

lemma right_loop_cases:
  "((\<forall>x. 0 \<le> x \<and> x < info_width img \<longrightarrow> \<not> col_has img t lo hi x) \<and>
      right_loop img t lo hi (info_width img - 1) 0 = 0) \<or>
   last_col img t lo hi (right_loop img t lo hi (info_width img - 1) 0)"
  using right_loop_spec[OF refl, of img t lo hi "info_width img - 1"]
  unfolding last_col_def by auto

lemma no_content_iff:
  "no_content img t \<longleftrightarrow>
     \<not> (\<exists>x y. 0 \<le> x \<and> x < info_width img \<and> 0 \<le> y \<and> y < info_height img \<and>
              alpha_exceeds img t x y)"
  unfolding no_content_def row_has_def by blast

lemma scan_bounds_empty:
  assumes "no_content img t" and "0 < info_height img"
  shows "scan_bounds t img = empty_bounds img"
proof -
  have T: "top_loop img t 0 (info_height img) = info_height img"
    using top_loop_cases[of img t] assms by (auto simp: no_content_def first_row_def)
  have B: "bottom_loop img t (info_height img - 1) 0 = 0"
    using bottom_loop_cases[of img t] assms by (auto simp: no_content_def last_row_def)
  have nc: "\<And>x. \<not> col_has img t (info_height img) 0 x"
    using assms(2) by (auto simp: col_has_def)
  have L: "left_loop img t (info_height img) 0 0 (info_width img) = info_width img"
    using left_loop_cases[of img t "info_height img" 0] nc by (auto simp: first_col_def)
  have R: "right_loop img t (info_height img) 0 (info_width img - 1) 0 = 0"
    using right_loop_cases[of img t "info_height img" 0] nc by (auto simp: last_col_def)
  show ?thesis by (simp add: scan_bounds_def Let_def T B L R empty_bounds_def)
qed

lemma scan_bounds_content:
  assumes "\<not> no_content img t"
  shows "\<exists>T B L R. first_row img t T \<and> last_row img t B \<and> first_col img t T B L \<and>
           last_col img t T B R \<and> T \<le> B \<and> L \<le> R \<and>
           scan_bounds t img =
             \<lparr> b_top = T, b_bottom = B, b_left = L, b_right = R,
               b_height = B - T + 1, b_width = R - L + 1 \<rparr>"
proof -
  define T where "T = top_loop img t 0 (info_height img)"
  define B where "B = bottom_loop img t (info_height img - 1) 0"
  define L where "L = left_loop img t T B 0 (info_width img)"
  define R where "R = right_loop img t T B (info_width img - 1) 0"
  have fT: "first_row img t T" using top_loop_cases[of img t] assms by (auto simp: T_def)
  have lB: "last_row img t B" using bottom_loop_cases[of img t] assms by (auto simp: B_def)
  have TB: "T \<le> B" using fT lB unfolding first_row_def last_row_def
    by (meson linorder_not_less)
  obtain x where x: "0 \<le> x" "x < info_width img" "alpha_exceeds img t x T"
    using fT unfolding first_row_def row_has_def by blast
  have ch: "col_has img t T B x" using x TB by (auto simp: col_has_def)
  have fL: "first_col img t T B L" using left_loop_cases[of img t T B] ch x by (auto simp: L_def)
  have lR: "last_col img t T B R" using right_loop_cases[of img t T B] ch x by (auto simp: R_def)
  have LR: "L \<le> R" using fL lR unfolding first_col_def last_col_def
    by (meson linorder_not_less)
  have "scan_bounds t img =
             \<lparr> b_top = T, b_bottom = B, b_left = L, b_right = R,
               b_height = B - T + 1, b_width = R - L + 1 \<rparr>"
    by (simp add: scan_bounds_def Let_def T_def B_def L_def R_def)
  with fT lB fL lR TB LR show ?thesis by blast
qed

lemma first_row_unique: "first_row img t a \<Longrightarrow> first_row img t b \<Longrightarrow> a = b"
  unfolding first_row_def by (meson linorder_neqE_linordered_idom)

lemma last_row_unique: "last_row img t a \<Longrightarrow> last_row img t b \<Longrightarrow> a = b"
  unfolding last_row_def by (meson linorder_neqE_linordered_idom)

lemma first_col_unique: "first_col img t lo hi a \<Longrightarrow> first_col img t lo hi b \<Longrightarrow> a = b"
  unfolding first_col_def by (meson linorder_neqE_linordered_idom)

lemma last_col_unique: "last_col img t lo hi a \<Longrightarrow> last_col img t lo hi b \<Longrightarrow> a = b"
  unfolding last_col_def by (meson linorder_neqE_linordered_idom)

lemma scan_bounds_box:
  assumes "first_row img t T" "last_row img t B" "first_col img t T B L" "last_col img t T B R"
  shows "scan_bounds t img =
           \<lparr> b_top = T, b_bottom = B, b_left = L, b_right = R,
             b_height = B - T + 1, b_width = R - L + 1 \<rparr>"
proof -
  have "\<not> no_content img t" using assms(1) unfolding no_content_def first_row_def by blast
  from scan_bounds_content[OF this] obtain T' B' L' R' where
    *: "first_row img t T'" "last_row img t B'" "first_col img t T' B' L'"
       "last_col img t T' B' R'"
       "scan_bounds t img =
             \<lparr> b_top = T', b_bottom = B', b_left = L', b_right = R',
               b_height = B' - T' + 1, b_width = R' - L' + 1 \<rparr>" by blast
  have "T' = T" using *(1) assms(1) by (rule first_row_unique)
  moreover have "B' = B" using *(2) assms(2) by (rule last_row_unique)
  moreover have "L' = L" using *(3) assms(3) \<open>T' = T\<close> \<open>B' = B\<close> by (auto intro: first_col_unique)
  moreover have "R' = R" using *(4) assms(4) \<open>T' = T\<close> \<open>B' = B\<close> by (auto intro: last_col_unique)
  ultimately show ?thesis using *(5) by simp
qed

section \<open>The bounds of a rectangle of content\<close>

lemma pixel_index_in_range:
  assumes "0 \<le> x" "x < w" "0 \<le> y" "y < h" "0 < c" "k < c" "0 \<le> (k::int)"
  shows "0 \<le> (y * w + x) * c + k \<and> (y * w + x) * c + k < w * h * c"
proof -
  have "y * w + x + 1 \<le> y * w + w" using assms by simp
  also have "\<dots> = (y + 1) * w" by (simp add: algebra_simps)
  also have "\<dots> \<le> h * w" using assms by (intro mult_right_mono) auto
  finally have "(y * w + x + 1) * c \<le> h * w * c" using assms by (intro mult_right_mono) auto
  then have "(y * w + x) * c + c \<le> w * h * c" by (simp add: algebra_simps)
  moreover have "0 \<le> (y * w + x) * c" using assms by simp
  ultimately show ?thesis using assms by linarith
qed

lemma alpha_exceeds_rgba:
  assumes "well_formed img" "info_channels img = 4"
    "0 \<le> x" "x < info_width img" "0 \<le> y" "y < info_height img"
  shows "alpha_exceeds img t x y \<longleftrightarrow> t < uint (alpha_at img x y)"
proof -
  have "0 \<le> (y * info_width img + x) * 4 + 3 \<and>
        (y * info_width img + x) * 4 + 3 < info_width img * info_height img * 4"
    using assms by (intro pixel_index_in_range) auto
  moreover have "int (length (data img)) = info_width img * info_height img * 4"
    using assms by (simp add: well_formed_def)
  ultimately show ?thesis using assms by (simp add: alpha_exceeds_def alpha_at_def Let_def)
qed

text \<open>
  C3. For an RGBA image whose alpha is 255 on the axis-aligned rectangle of columns \<open>l\<close> to
  \<open>r\<close> and rows \<open>t\<close> to \<open>b\<close> inside the frame and 0 on every other pixel,
  \<open>getContentBounds\<close> returns exactly the inclusive coordinates of the rectangle: top
  \<open>t\<close>, bottom \<open>b\<close>, left \<open>l\<close>, right \<open>r\<close>, with the derived height and width.
\<close>

theorem getContentBounds_rectangle:
  assumes wf: "well_formed img" and rgba: "info_channels img = 4"
    and l: "0 \<le> l" "l \<le> r" "r < info_width img"
    and t: "0 \<le> t" "t \<le> b" "b < info_height img"
    and alpha: "\<forall>x y. 0 \<le> x \<and> x < info_width img \<and> 0 \<le> y \<and> y < info_height img \<longrightarrow>
                  alpha_at img x y = (if l \<le> x \<and> x \<le> r \<and> t \<le> y \<and> y \<le> b then 255 else 0)"
  shows "getContentBounds img =
           \<lparr> b_top = t, b_bottom = b, b_left = l, b_right = r,
             b_height = b - t + 1, b_width = r - l + 1 \<rparr>"
proof -
  have ex: "alpha_exceeds img 1 x y \<longleftrightarrow> l \<le> x \<and> x \<le> r \<and> t \<le> y \<and> y \<le> b"
    if "0 \<le> x" "x < info_width img" "0 \<le> y" "y < info_height img" for x y
    using alpha_exceeds_rgba[OF wf rgba that, of 1] alpha that by simp
  have row: "row_has img 1 y \<longleftrightarrow> t \<le> y \<and> y \<le> b" if "0 \<le> y" "y < info_height img" for y
  proof
    assume "row_has img 1 y"
    then show "t \<le> y \<and> y \<le> b" unfolding row_has_def using ex that by blast
  next
    assume "t \<le> y \<and> y \<le> b"
    then have "alpha_exceeds img 1 l y" using ex[of l y] l that by simp
    then show "row_has img 1 y" unfolding row_has_def using l by force
  qed
  have col: "col_has img 1 t b x \<longleftrightarrow> l \<le> x \<and> x \<le> r" if "0 \<le> x" "x < info_width img" for x
  proof
    assume "col_has img 1 t b x"
    then obtain y where "t \<le> y" "y \<le> b" "alpha_exceeds img 1 x y" unfolding col_has_def by blast
    then show "l \<le> x \<and> x \<le> r" using ex[of x y] that t by simp
  next
    assume "l \<le> x \<and> x \<le> r"
    then have "alpha_exceeds img 1 x t" using ex[of x t] t that by simp
    then show "col_has img 1 t b x" unfolding col_has_def using t by force
  qed
  have 1: "first_row img 1 t" unfolding first_row_def using row t by auto
  have 2: "last_row img 1 b" unfolding last_row_def using row t by auto
  have 3: "first_col img 1 t b l" unfolding first_col_def using col l by auto
  have 4: "last_col img 1 t b r" unfolding last_col_def using col l by auto
  show ?thesis unfolding getContentBounds_def by (rule scan_bounds_box[OF 1 2 3 4])
qed

theorem getContentBounds_rectangle_witness:
  "getContentBounds dot_3x2 =
     \<lparr> b_top = 1, b_bottom = 1, b_left = 1, b_right = 2, b_height = 1, b_width = 2 \<rparr>"
proof -
  have wf: "well_formed dot_3x2" by (simp add: well_formed_def dot_3x2_def)
  have rgba: "info_channels dot_3x2 = 4" by (simp add: dot_3x2_def)
  have alpha: "\<forall>x y. 0 \<le> x \<and> x < info_width dot_3x2 \<and> 0 \<le> y \<and> y < info_height dot_3x2 \<longrightarrow>
      alpha_at dot_3x2 x y = (if 1 \<le> x \<and> x \<le> 2 \<and> 1 \<le> y \<and> y \<le> 1 then 255 else 0)"
  proof (intro allI impI)
    fix x y :: int
    assume "0 \<le> x \<and> x < info_width dot_3x2 \<and> 0 \<le> y \<and> y < info_height dot_3x2"
    then have "(x = 0 \<or> x = 1 \<or> x = 2) \<and> (y = 0 \<or> y = 1)"
      by (simp add: dot_3x2_def) linarith
    then show "alpha_at dot_3x2 x y = (if 1 \<le> x \<and> x \<le> 2 \<and> 1 \<le> y \<and> y \<le> 1 then 255 else 0)"
      by (auto simp: alpha_at_def dot_3x2_def nat_numeral_diff_1 numeral_nat)
  qed
  show ?thesis
    using getContentBounds_rectangle[OF wf rgba _ _ _ _ _ _ alpha] by (simp add: dot_3x2_def)
qed

section \<open>Valid bounds and the result on an image without content\<close>

text \<open>
  C5, as the code has it. \<open>getContentBounds\<close> has no value of its own for "no content": for
  an image of positive height, either a pixel passes the test and the result is a box inside
  the frame with \<open>top \<le> bottom\<close> and \<open>left \<le> right\<close>, or no pixel passes and the result
  is the untouched initial values, \<open>top = info.height\<close>, \<open>bottom = 0\<close>,
  \<open>left = info.width\<close>, \<open>right = 0\<close>, whose \<open>top\<close> is greater than its \<open>bottom\<close>, so
  that it differs from every box of the first kind.
\<close>

theorem getContentBounds_valid_or_initial:
  assumes "0 < info_height img"
  shows "((\<exists>x y. 0 \<le> x \<and> x < info_width img \<and> 0 \<le> y \<and> y < info_height img \<and>
                 alpha_exceeds img 1 x y) \<and>
          0 \<le> b_top (getContentBounds img) \<and>
          b_top (getContentBounds img) \<le> b_bottom (getContentBounds img) \<and>
          b_bottom (getContentBounds img) < info_height img \<and>
          0 \<le> b_left (getContentBounds img) \<and>
          b_left (getContentBounds img) \<le> b_right (getContentBounds img) \<and>
          b_right (getContentBounds img) < info_width img)
       \<or> ((\<forall>x y. 0 \<le> x \<and> x < info_width img \<and> 0 \<le> y \<and> y < info_height img \<longrightarrow>
                 \<not> alpha_exceeds img 1 x y) \<and>
          getContentBounds img =
            \<lparr> b_top = info_height img, b_bottom = 0, b_left = info_width img, b_right = 0,
              b_height = 0 - info_height img + 1, b_width = 0 - info_width img + 1 \<rparr> \<and>
          b_bottom (getContentBounds img) < b_top (getContentBounds img))"
proof (cases "no_content img 1")
  case True
  have "getContentBounds img = empty_bounds img"
    unfolding getContentBounds_def by (rule scan_bounds_empty[OF True assms])
  moreover have "\<forall>x y. 0 \<le> x \<and> x < info_width img \<and> 0 \<le> y \<and> y < info_height img \<longrightarrow>
                 \<not> alpha_exceeds img 1 x y"
    using True unfolding no_content_def row_has_def by blast
  ultimately show ?thesis using assms by (simp add: empty_bounds_def)
next
  case False
  from scan_bounds_content[OF False] obtain T B L R where
    *: "first_row img 1 T" "last_row img 1 B" "first_col img 1 T B L" "last_col img 1 T B R"
       "T \<le> B" "L \<le> R"
       "getContentBounds img =
             \<lparr> b_top = T, b_bottom = B, b_left = L, b_right = R,
               b_height = B - T + 1, b_width = R - L + 1 \<rparr>"
    unfolding getContentBounds_def by blast
  have "\<exists>x y. 0 \<le> x \<and> x < info_width img \<and> 0 \<le> y \<and> y < info_height img \<and>
                 alpha_exceeds img 1 x y"
    using *(1) unfolding first_row_def row_has_def by blast
  then show ?thesis using * unfolding first_row_def last_row_def first_col_def last_col_def
    by simp
qed

theorem getContentBounds_valid_or_initial_witness:
  "0 < info_height blank_3x3 \<and>
   getContentBounds blank_3x3 =
     \<lparr> b_top = 3, b_bottom = 0, b_left = 3, b_right = 0, b_height = - 2, b_width = - 2 \<rparr>"
proof -
  have h: "0 < info_height blank_3x3" by (simp add: blank_3x3_def)
  have "\<not> alpha_exceeds blank_3x3 1 x y" for x y
    by (auto simp: blank_3x3_def alpha_exceeds_def Let_def)
  then show ?thesis
    using getContentBounds_valid_or_initial[OF h] h by (auto simp: blank_3x3_def)
qed

text \<open>
  On the transparent three by three image the result is the box with \<open>top\<close> equal to
  the height and \<open>bottom = 0\<close>.
\<close>

theorem getContentBounds_blank_counterexample:
  "b_top (getContentBounds blank_3x3) = info_height blank_3x3 \<and>
   b_bottom (getContentBounds blank_3x3) = 0 \<and>
   \<not> b_top (getContentBounds blank_3x3) \<le> b_bottom (getContentBounds blank_3x3)"
  by code_simp

section \<open>The vertical flip\<close>

lemma flip_index_row:
  assumes "y < H" "k < L"
  shows "flip_index H L (y * L + k) = (H - 1 - y) * L + k"
  using assms by (simp add: flip_index_def)

lemma flip_index_decomp:
  assumes "i < H * (L::nat)"
  shows "i div L < H \<and> i mod L < L \<and> i = (i div L) * L + i mod L"
proof -
  have "0 < L" using assms by (cases L) auto
  then show ?thesis using assms by (simp add: less_mult_imp_div_less)
qed

lemma flip_index_lt:
  assumes "i < H * L"
  shows "flip_index H L i < H * L"
proof -
  from flip_index_decomp[OF assms] have q: "i div L < H" and r: "i mod L < L" by auto
  have "flip_index H L i < (H - 1 - i div L) * L + L" using r by (simp add: flip_index_def)
  also have "\<dots> = (H - 1 - i div L + 1) * L" by simp
  also have "\<dots> \<le> H * L" using q by (intro mult_le_mono1) auto
  finally show ?thesis .
qed

lemma flip_index_invol:
  assumes "i < H * L"
  shows "flip_index H L (flip_index H L i) = i"
proof -
  from flip_index_decomp[OF assms] have q: "i div L < H" and r: "i mod L < L"
    and i: "i = (i div L) * L + i mod L" by auto
  have "flip_index H L i = (H - 1 - i div L) * L + i mod L" by (simp add: flip_index_def)
  also have "flip_index H L \<dots> = (H - 1 - (H - 1 - i div L)) * L + i mod L"
    using q r by (intro flip_index_row) auto
  also have "H - 1 - (H - 1 - i div L) = i div L" using q by auto
  finally show ?thesis using i by simp
qed

lemma well_formed_length:
  assumes "well_formed img"
  shows "length (data img) = nat (info_height img) * nat (info_width img * info_channels img)"
proof -
  have "info_width img * info_height img * info_channels img
        = info_height img * (info_width img * info_channels img)" by (simp add: algebra_simps)
  then show ?thesis using assms by (simp add: well_formed_def nat_mult_distrib)
qed

lemma flip_fields [simp]:
  "info_width (flip img) = info_width img" "info_height (flip img) = info_height img"
  "info_channels (flip img) = info_channels img" "length (data (flip img)) = length (data img)"
  by (simp_all add: flip_def)

lemma well_formed_flip: "well_formed img \<Longrightarrow> well_formed (flip img)"
  by (simp add: well_formed_def)

lemma flip_nth:
  assumes "i < length (data img)"
  shows "data (flip img) ! i =
         data img ! flip_index (nat (info_height img)) (nat (info_width img * info_channels img)) i"
  using assms by (simp add: flip_def)

lemma flip_flip:
  assumes "well_formed img"
  shows "flip (flip img) = img"
proof -
  let ?H = "nat (info_height img)" and ?L = "nat (info_width img * info_channels img)"
  have len: "length (data img) = ?H * ?L" by (rule well_formed_length[OF assms])
  have "data (flip (flip img)) = data img"
  proof (rule nth_equalityI)
    show "length (data (flip (flip img))) = length (data img)" by simp
  next
    fix i assume "i < length (data (flip (flip img)))"
    then have i: "i < ?H * ?L" using len by simp
    then have fi: "flip_index ?H ?L i < ?H * ?L" by (rule flip_index_lt)
    have "data (flip (flip img)) ! i = data (flip img) ! flip_index ?H ?L i"
      using i len by (simp add: flip_nth)
    also have "\<dots> = data img ! flip_index ?H ?L (flip_index ?H ?L i)"
      using fi len by (simp add: flip_nth)
    also have "\<dots> = data img ! i" using flip_index_invol[OF i] by simp
    finally show "data (flip (flip img)) ! i = data img ! i" .
  qed
  then show ?thesis by (simp add: flip_def)
qed

lemma flip_row_byte:
  assumes wf: "well_formed img"
    and y: "0 \<le> y" "y < info_height img"
    and k: "0 \<le> k" "k < info_width img * info_channels img"
  shows "data (flip img) ! nat (y * (info_width img * info_channels img) + k) =
         data img ! nat ((info_height img - 1 - y) * (info_width img * info_channels img) + k)"
proof -
  let ?H = "nat (info_height img)" and ?L = "nat (info_width img * info_channels img)"
  have len: "length (data img) = ?H * ?L" by (rule well_formed_length[OF wf])
  have Lpos: "0 \<le> info_width img * info_channels img" using k by linarith
  have n1: "nat (y * (info_width img * info_channels img) + k) = nat y * ?L + nat k"
    using y k Lpos by (simp add: nat_add_distrib nat_mult_distrib)
  have n2: "nat ((info_height img - 1 - y) * (info_width img * info_channels img) + k)
            = (?H - 1 - nat y) * ?L + nat k"
    using y k Lpos by (simp add: nat_add_distrib nat_mult_distrib nat_diff_distrib)
  have yk: "nat y < ?H" "nat k < ?L" using y k by auto
  have "nat y * ?L + nat k < nat y * ?L + ?L" using yk by simp
  also have "\<dots> = (nat y + 1) * ?L" by simp
  also have "\<dots> \<le> ?H * ?L" using yk by (intro mult_le_mono1) auto
  finally have lt: "nat y * ?L + nat k < length (data img)" using len by simp
  show ?thesis
    unfolding n1 n2 using flip_nth[OF lt] flip_index_row[OF yk] by simp
qed

text \<open>
  C8. The flip of a decoded image has the same width, height, channels and buffer length;
  the byte at offset \<open>k\<close> of row \<open>y\<close> of the result is the byte at offset \<open>k\<close> of row
  \<open>height - 1 - y\<close> of the input, so rows are reversed and every byte of every pixel is
  kept; and flipping twice gives the input back, byte for byte.
\<close>

theorem flip_involution:
  assumes "well_formed img"
  shows "info_width (flip img) = info_width img \<and> info_height (flip img) = info_height img \<and>
         info_channels (flip img) = info_channels img \<and>
         length (data (flip img)) = length (data img) \<and>
         (\<forall>y k. 0 \<le> y \<and> y < info_height img \<and> 0 \<le> k \<and> k < info_width img * info_channels img \<longrightarrow>
            data (flip img) ! nat (y * (info_width img * info_channels img) + k) =
            data img ! nat ((info_height img - 1 - y) * (info_width img * info_channels img) + k)) \<and>
         flip (flip img) = img"
  using flip_row_byte[OF assms] flip_flip[OF assms] by simp

theorem flip_involution_witness:
  "well_formed dot_3x2 \<and> flip (flip dot_3x2) = dot_3x2 \<and>
   data (flip dot_3x2) ! 7 = data dot_3x2 ! 19 \<and> data dot_3x2 ! 19 = 255"
proof -
  have wf: "well_formed dot_3x2" by (simp add: well_formed_def dot_3x2_def)
  have dims: "info_width dot_3x2 = 3" "info_height dot_3x2 = 2" "info_channels dot_3x2 = 4"
    by (simp_all add: dot_3x2_def)
  have d: "data dot_3x2 ! 19 = 255" by (simp add: dot_3x2_def)
  note th = flip_involution[OF wf]
  from th have inv: "flip (flip dot_3x2) = dot_3x2" by blast
  from th have "0 \<le> (0::int) \<and> 0 < info_height dot_3x2 \<and> 0 \<le> (7::int) \<and>
        7 < info_width dot_3x2 * info_channels dot_3x2 \<longrightarrow>
        data (flip dot_3x2) ! nat (0 * (info_width dot_3x2 * info_channels dot_3x2) + 7) =
        data dot_3x2 !
          nat ((info_height dot_3x2 - 1 - 0) * (info_width dot_3x2 * info_channels dot_3x2) + 7)"
    by blast
  then have "data (flip dot_3x2) ! 7 = data dot_3x2 ! 19" by (simp add: dims)
  then show ?thesis using wf inv d by simp
qed

section \<open>The bounds of the back side\<close>

lemma alpha_exceeds_flip:
  assumes wf: "well_formed img"
    and x: "0 \<le> x" "x < info_width img" and y: "0 \<le> y" "y < info_height img"
  shows "alpha_exceeds (flip img) t x y \<longleftrightarrow> alpha_exceeds img t x (info_height img - 1 - y)"
proof (cases "info_channels img = 4")
  case False
  then show ?thesis by (simp add: alpha_exceeds_def)
next
  case True
  let ?w = "info_width img" and ?h = "info_height img"
  have y': "0 \<le> ?h - 1 - y" "?h - 1 - y < ?h" using y by auto
  have len: "int (length (data img)) = ?w * ?h * 4"
    using wf True by (simp add: well_formed_def)
  have r1: "0 \<le> (y * ?w + x) * 4 + 3 \<and> (y * ?w + x) * 4 + 3 < ?w * ?h * 4"
    using x y by (intro pixel_index_in_range) auto
  have r2: "0 \<le> ((?h - 1 - y) * ?w + x) * 4 + 3 \<and> ((?h - 1 - y) * ?w + x) * 4 + 3 < ?w * ?h * 4"
    using x y' by (intro pixel_index_in_range) auto
  have k: "0 \<le> x * 4 + 3" "x * 4 + 3 < ?w * info_channels img" using x True by auto
  have e1: "(y * ?w + x) * 4 + 3 = y * (?w * info_channels img) + (x * 4 + 3)"
    using True by (simp add: algebra_simps)
  have e2: "((?h - 1 - y) * ?w + x) * 4 + 3 = (?h - 1 - y) * (?w * info_channels img) + (x * 4 + 3)"
    using True by (simp add: algebra_simps)
  have byte: "data (flip img) ! nat ((y * ?w + x) * 4 + 3) =
              data img ! nat (((?h - 1 - y) * ?w + x) * 4 + 3)"
    unfolding e1 e2 by (rule flip_row_byte[OF wf y k])
  show ?thesis
    using True r1 r2 len byte by (simp add: alpha_exceeds_def Let_def)
qed

lemma row_has_flip:
  assumes "well_formed img" "0 \<le> y" "y < info_height img"
  shows "row_has (flip img) t y \<longleftrightarrow> row_has img t (info_height img - 1 - y)"
  unfolding row_has_def using alpha_exceeds_flip[OF assms(1) _ _ assms(2,3)] by auto

lemma col_has_flip:
  assumes wf: "well_formed img" and x: "0 \<le> x" "x < info_width img"
    and lo: "0 \<le> lo" and hi: "hi < info_height img"
  shows "col_has (flip img) t lo hi x \<longleftrightarrow>
         col_has img t (info_height img - 1 - hi) (info_height img - 1 - lo) x"
proof
  assume "col_has (flip img) t lo hi x"
  then obtain y where y: "lo \<le> y" "y \<le> hi" "alpha_exceeds (flip img) t x y"
    unfolding col_has_def by blast
  then have "alpha_exceeds img t x (info_height img - 1 - y)"
    using alpha_exceeds_flip[OF wf x, of y t] lo hi by simp
  then show "col_has img t (info_height img - 1 - hi) (info_height img - 1 - lo) x"
    unfolding col_has_def using y by (intro exI[of _ "info_height img - 1 - y"]) simp
next
  assume "col_has img t (info_height img - 1 - hi) (info_height img - 1 - lo) x"
  then obtain y where y: "info_height img - 1 - hi \<le> y" "y \<le> info_height img - 1 - lo"
    "alpha_exceeds img t x y" unfolding col_has_def by blast
  have "alpha_exceeds (flip img) t x (info_height img - 1 - y)"
    using alpha_exceeds_flip[OF wf x, of "info_height img - 1 - y" t] y lo hi by simp
  then show "col_has (flip img) t lo hi x"
    unfolding col_has_def using y by (intro exI[of _ "info_height img - 1 - y"]) simp
qed

lemma first_row_flip:
  assumes wf: "well_formed img" and "last_row img t B"
  shows "first_row (flip img) t (info_height img - 1 - B)"
  using assms(2) row_has_flip[OF wf, of _ t] unfolding first_row_def last_row_def
  by simp

lemma last_row_flip:
  assumes wf: "well_formed img" and "first_row img t T"
  shows "last_row (flip img) t (info_height img - 1 - T)"
  using assms(2) row_has_flip[OF wf, of _ t] unfolding first_row_def last_row_def
  by simp

lemma first_col_flip:
  assumes wf: "well_formed img" and "first_col img t T B L" "0 \<le> T" "B < info_height img"
  shows "first_col (flip img) t (info_height img - 1 - B) (info_height img - 1 - T) L"
  using assms(2-) col_has_flip[OF wf, of _ "info_height img - 1 - B" "info_height img - 1 - T" t]
  unfolding first_col_def by simp

lemma last_col_flip:
  assumes wf: "well_formed img" and "last_col img t T B R" "0 \<le> T" "B < info_height img"
  shows "last_col (flip img) t (info_height img - 1 - B) (info_height img - 1 - T) R"
  using assms(2-) col_has_flip[OF wf, of _ "info_height img - 1 - B" "info_height img - 1 - T" t]
  unfolding last_col_def by simp

lemma no_content_flip:
  assumes wf: "well_formed img" and "no_content img t"
  shows "no_content (flip img) t"
  using assms(2) row_has_flip[OF wf, of _ t] unfolding no_content_def by simp

lemma scan_bounds_flip_content:
  assumes wf: "well_formed img" and c: "\<not> no_content img t"
  shows "\<exists>T B L R. 0 \<le> T \<and> T \<le> B \<and> B < info_height img \<and>
           scan_bounds t img =
             \<lparr> b_top = T, b_bottom = B, b_left = L, b_right = R,
               b_height = B - T + 1, b_width = R - L + 1 \<rparr> \<and>
           scan_bounds t (flip img) =
             \<lparr> b_top = info_height img - 1 - B, b_bottom = info_height img - 1 - T,
               b_left = L, b_right = R, b_height = B - T + 1, b_width = R - L + 1 \<rparr>"
proof -
  from scan_bounds_content[OF c] obtain T B L R where
    *: "first_row img t T" "last_row img t B" "first_col img t T B L" "last_col img t T B R"
       "T \<le> B"
       "scan_bounds t img =
             \<lparr> b_top = T, b_bottom = B, b_left = L, b_right = R,
               b_height = B - T + 1, b_width = R - L + 1 \<rparr>"
    by blast
  have T0: "0 \<le> T" using *(1) by (simp add: first_row_def)
  have Bh: "B < info_height img" using *(2) by (simp add: last_row_def)
  have "scan_bounds t (flip img) =
          \<lparr> b_top = info_height img - 1 - B, b_bottom = info_height img - 1 - T,
            b_left = L, b_right = R,
            b_height = (info_height img - 1 - T) - (info_height img - 1 - B) + 1,
            b_width = R - L + 1 \<rparr>"
    by (rule scan_bounds_box[OF first_row_flip[OF wf *(2)] last_row_flip[OF wf *(1)]
          first_col_flip[OF wf *(3) T0 Bh] last_col_flip[OF wf *(4) T0 Bh]])
  then show ?thesis using * T0 Bh by simp
qed

text \<open>
  C10, as the code has it. For a decoded buffer of height \<open>h\<close> and any threshold
  (\<open>getContentBounds\<close> is \<open>scan_bounds 1\<close>), the bounds of the flip and of the buffer have
  the same content height; and when at least one pixel of the buffer passes the test, the
  top of the flip's bounds is \<open>h - 1 -\<close> the bottom of the buffer's, and its bottom is
  \<open>h - 1 -\<close> the top of the buffer's.
\<close>

theorem flip_bounds:
  assumes wf: "well_formed img"
  shows "b_height (scan_bounds t (flip img)) = b_height (scan_bounds t img) \<and>
         ((\<exists>x y. 0 \<le> x \<and> x < info_width img \<and> 0 \<le> y \<and> y < info_height img \<and>
                 alpha_exceeds img t x y) \<longrightarrow>
          b_top (scan_bounds t (flip img)) = info_height img - 1 - b_bottom (scan_bounds t img) \<and>
          b_bottom (scan_bounds t (flip img)) = info_height img - 1 - b_top (scan_bounds t img))"
proof (cases "no_content img t")
  case True
  have h: "0 < info_height img" using wf by (simp add: well_formed_def)
  have "scan_bounds t img = empty_bounds img" by (rule scan_bounds_empty[OF True h])
  moreover have "scan_bounds t (flip img) = empty_bounds (flip img)"
    using no_content_flip[OF wf True] h by (intro scan_bounds_empty) simp_all
  ultimately show ?thesis using True by (simp add: empty_bounds_def no_content_iff)
next
  case False
  from scan_bounds_flip_content[OF wf False] show ?thesis by auto
qed

theorem flip_bounds_witness:
  "well_formed dot_3x2 \<and>
   b_top (scan_bounds 1 (flip dot_3x2)) = 0 \<and> b_bottom (scan_bounds 1 (flip dot_3x2)) = 0 \<and>
   b_height (scan_bounds 1 (flip dot_3x2)) = 1"
proof -
  have wf: "well_formed dot_3x2" by (simp add: well_formed_def dot_3x2_def)
  have ex: "\<exists>x y. 0 \<le> x \<and> x < info_width dot_3x2 \<and> 0 \<le> y \<and> y < info_height dot_3x2 \<and>
                 alpha_exceeds dot_3x2 1 x y"
    by (intro exI[of _ 1]) (simp add: dot_3x2_def alpha_exceeds_def)
  have sb: "scan_bounds 1 dot_3x2 =
     \<lparr> b_top = 1, b_bottom = 1, b_left = 1, b_right = 2, b_height = 1, b_width = 2 \<rparr>"
    by code_simp
  show ?thesis using flip_bounds[OF wf, of 1] ex wf sb by (simp add: dot_3x2_def)
qed

text \<open>
  Without content both sides get the initial values, and \<open>top = h\<close> of the back side is not
  \<open>h - 1 - 0\<close>.
\<close>

theorem flip_bounds_blank_counterexample:
  "b_top (getContentBounds (flip blank_3x3)) \<noteq>
     info_height blank_3x3 - 1 - b_bottom (getContentBounds blank_3x3)"
  by code_simp

section \<open>The transparent trim\<close>

lemma row_loop_hc_eq:
  "row_loop_hc img t y x s =
     (if (\<exists>x'. x \<le> x' \<and> x' < info_width img \<and> alpha_exceeds img t x' y) then (y, True) else s)"
proof (induction img t y x s rule: row_loop_hc.induct)
  case (1 img t y x s)
  show ?case
  proof (cases "x < info_width img")
    case False
    then show ?thesis by (subst row_loop_hc.simps) auto
  next
    case True
    show ?thesis
    proof (cases "alpha_exceeds img t x y")
      case True
      with \<open>x < info_width img\<close> show ?thesis by (subst row_loop_hc.simps) auto
    next
      case False
      have "(\<exists>x'. x \<le> x' \<and> x' < info_width img \<and> alpha_exceeds img t x' y)
            = (\<exists>x'. x + 1 \<le> x' \<and> x' < info_width img \<and> alpha_exceeds img t x' y)"
        using False by (metis add1_zle_eq order_le_less)
      with 1 True False show ?thesis by (subst row_loop_hc.simps) simp
    qed
  qed
qed

lemma col_loop_hc_eq:
  "col_loop_hc img t x y hi s =
     (if (\<exists>y'. y \<le> y' \<and> y' \<le> hi \<and> alpha_exceeds img t x y') then (x, True) else s)"
proof (induction img t x y hi s rule: col_loop_hc.induct)
  case (1 img t x y hi s)
  show ?case
  proof (cases "y \<le> hi")
    case False
    then show ?thesis by (subst col_loop_hc.simps) auto
  next
    case True
    show ?thesis
    proof (cases "alpha_exceeds img t x y")
      case True
      with \<open>y \<le> hi\<close> show ?thesis by (subst col_loop_hc.simps) auto
    next
      case False
      have "(\<exists>y'. y \<le> y' \<and> y' \<le> hi \<and> alpha_exceeds img t x y')
            = (\<exists>y'. y + 1 \<le> y' \<and> y' \<le> hi \<and> alpha_exceeds img t x y')"
        using False by (metis add1_zle_eq order_le_less)
      with 1 True False show ?thesis by (subst col_loop_hc.simps) simp
    qed
  qed
qed

lemma row_loop_hc_fst: "fst (row_loop_hc img t y 0 s) = row_loop img t y 0 (fst s)"
  by (auto simp: row_loop_hc_eq row_loop_eq)

lemma col_loop_hc_fst: "fst (col_loop_hc img t x lo hi s) = col_loop img t x lo hi (fst s)"
  by (auto simp: col_loop_hc_eq col_loop_eq)

lemma top_loop_hc_fst: "fst (top_loop_hc img t y s) = top_loop img t y (fst s)"
proof (induction img t y s rule: top_loop_hc.induct)
  case (1 img t y s)
  show ?case
    by (subst top_loop_hc.simps, subst top_loop.simps) (simp add: 1 row_loop_hc_fst)
qed

lemma bottom_loop_hc_fst: "fst (bottom_loop_hc img t y s) = bottom_loop img t y (fst s)"
proof (induction img t y s rule: bottom_loop_hc.induct)
  case (1 img t y s)
  show ?case
    by (subst bottom_loop_hc.simps, subst bottom_loop.simps) (simp add: 1 row_loop_hc_fst)
qed

lemma left_loop_hc_fst: "fst (left_loop_hc img t lo hi x s) = left_loop img t lo hi x (fst s)"
proof (induction img t lo hi x s rule: left_loop_hc.induct)
  case (1 img t lo hi x s)
  show ?case
    by (subst left_loop_hc.simps, subst left_loop.simps) (simp add: 1 col_loop_hc_fst)
qed

lemma right_loop_hc_fst: "fst (right_loop_hc img t lo hi x s) = right_loop img t lo hi x (fst s)"
proof (induction img t lo hi x s rule: right_loop_hc.induct)
  case (1 img t lo hi x s)
  show ?case
    by (subst right_loop_hc.simps, subst right_loop.simps) (simp add: 1 col_loop_hc_fst)
qed

text \<open>The inline scan finds the bounds that the scanner finds with threshold 5.\<close>

lemma inline_scan_bounds:
  "minY (inline_scan img) = b_top (scan_bounds 5 img) \<and>
   maxY (inline_scan img) = b_bottom (scan_bounds 5 img) \<and>
   minX (inline_scan img) = b_left (scan_bounds 5 img) \<and>
   maxX (inline_scan img) = b_right (scan_bounds 5 img)"
  unfolding inline_scan_def scan_bounds_def Let_def
  by (simp add: case_prod_beta top_loop_hc_fst bottom_loop_hc_fst
        left_loop_hc_fst right_loop_hc_fst)

text \<open>
  C7, as the code has it. The trim step looks at the scan only when sharp's own trim has
  returned a buffer of the input's width and height. Then it returns that buffer, at the
  input's positive size, in each of these cases: no pixel of the frame has an alpha above the
  threshold 5; the scanned bounds are degenerate, \<open>left \<ge> right\<close> or \<open>top \<ge> bottom\<close>;
  the scanned bounds are the full frame.
\<close>

theorem trim_stage_unmodified:
  assumes trim: "sharp_trim img = Inr tr"
    and same: "info_width tr = info_width img" "info_height tr = info_height img"
    and pos: "0 < info_width img" "0 < info_height img"
  shows "((\<forall>x y. 0 \<le> x \<and> x < info_width img \<and> 0 \<le> y \<and> y < info_height img \<longrightarrow>
              \<not> alpha_exceeds img 5 x y) \<longrightarrow> trim_stage sharp_trim img = Inr tr) \<and>
         (b_right (scan_bounds 5 img) \<le> b_left (scan_bounds 5 img) \<or>
          b_bottom (scan_bounds 5 img) \<le> b_top (scan_bounds 5 img) \<longrightarrow>
            trim_stage sharp_trim img = Inr tr) \<and>
         (b_left (scan_bounds 5 img) = 0 \<and> b_top (scan_bounds 5 img) = 0 \<and>
          b_right (scan_bounds 5 img) = info_width img - 1 \<and>
          b_bottom (scan_bounds 5 img) = info_height img - 1 \<longrightarrow>
            trim_stage sharp_trim img = Inr tr) \<and>
         0 < info_width tr \<and> 0 < info_height tr"
proof -
  note sim = inline_scan_bounds[of img]
  have a: "trim_stage sharp_trim img = Inr tr"
    if "\<forall>x y. 0 \<le> x \<and> x < info_width img \<and> 0 \<le> y \<and> y < info_height img \<longrightarrow>
              \<not> alpha_exceeds img 5 x y"
  proof -
    have "no_content img 5" using that unfolding no_content_def row_has_def by blast
    then have "scan_bounds 5 img = empty_bounds img" using pos(2) by (rule scan_bounds_empty)
    then have "\<not> minX (inline_scan img) < maxX (inline_scan img)"
      using sim pos(1) by (simp add: empty_bounds_def)
    then show ?thesis by (simp add: trim_stage_def trim Let_def)
  qed
  have b: "trim_stage sharp_trim img = Inr tr"
    if "b_right (scan_bounds 5 img) \<le> b_left (scan_bounds 5 img) \<or>
        b_bottom (scan_bounds 5 img) \<le> b_top (scan_bounds 5 img)"
  proof -
    have "\<not> (minX (inline_scan img) < maxX (inline_scan img) \<and>
             minY (inline_scan img) < maxY (inline_scan img))"
      using that sim by auto
    then show ?thesis by (auto simp: trim_stage_def trim Let_def)
  qed
  have c: "trim_stage sharp_trim img = Inr tr"
    if "b_left (scan_bounds 5 img) = 0 \<and> b_top (scan_bounds 5 img) = 0 \<and>
        b_right (scan_bounds 5 img) = info_width img - 1 \<and>
        b_bottom (scan_bounds 5 img) = info_height img - 1"
    using that sim by (simp add: trim_stage_def trim Let_def)
  have d: "0 < info_width tr \<and> 0 < info_height tr" using pos same by simp
  from a b c d show ?thesis by blast
qed

theorem trim_stage_unmodified_witness:
  "trim_stage border_trim faint_3x3 = Inr faint_3x3 \<and>
   trim_stage border_trim stripe_3x3 = Inr stripe_3x3 \<and>
   trim_stage border_trim opaque_3x3 = Inr opaque_3x3"
proof -
  have 1: "trim_stage border_trim faint_3x3 = Inr faint_3x3"
  proof -
    have t: "border_trim faint_3x3 = Inr faint_3x3" by code_simp
    have nc: "\<forall>x y. 0 \<le> x \<and> x < info_width faint_3x3 \<and> 0 \<le> y \<and> y < info_height faint_3x3 \<longrightarrow>
              \<not> alpha_exceeds faint_3x3 5 x y"
    proof (intro allI impI)
      fix x y :: int
      assume "0 \<le> x \<and> x < info_width faint_3x3 \<and> 0 \<le> y \<and> y < info_height faint_3x3"
      then have "(x = 0 \<or> x = 1 \<or> x = 2) \<and> (y = 0 \<or> y = 1 \<or> y = 2)"
        by (simp add: faint_3x3_def) linarith
      then show "\<not> alpha_exceeds faint_3x3 5 x y"
        by (auto simp: alpha_exceeds_def faint_3x3_def)
    qed
    have pos: "0 < info_width faint_3x3" "0 < info_height faint_3x3"
      by (simp_all add: faint_3x3_def)
    show ?thesis using trim_stage_unmodified[of border_trim faint_3x3 faint_3x3, OF t refl refl pos] nc by blast
  qed
  have 2: "trim_stage border_trim stripe_3x3 = Inr stripe_3x3"
  proof -
    have t: "border_trim stripe_3x3 = Inr stripe_3x3" by code_simp
    have "scan_bounds 5 stripe_3x3 =
       \<lparr> b_top = 1, b_bottom = 1, b_left = 0, b_right = 2, b_height = 1, b_width = 3 \<rparr>"
      by code_simp
    then have deg: "b_bottom (scan_bounds 5 stripe_3x3) \<le> b_top (scan_bounds 5 stripe_3x3)"
      by simp
    have pos: "0 < info_width stripe_3x3" "0 < info_height stripe_3x3"
      by (simp_all add: stripe_3x3_def)
    show ?thesis using trim_stage_unmodified[of border_trim stripe_3x3 stripe_3x3, OF t refl refl pos] deg by blast
  qed
  have 3: "trim_stage border_trim opaque_3x3 = Inr opaque_3x3"
  proof -
    have t: "border_trim opaque_3x3 = Inr opaque_3x3" by code_simp
    have "scan_bounds 5 opaque_3x3 =
       \<lparr> b_top = 0, b_bottom = 2, b_left = 0, b_right = 2, b_height = 3, b_width = 3 \<rparr>"
      by code_simp
    then have full: "b_left (scan_bounds 5 opaque_3x3) = 0 \<and> b_top (scan_bounds 5 opaque_3x3) = 0 \<and>
        b_right (scan_bounds 5 opaque_3x3) = info_width opaque_3x3 - 1 \<and>
        b_bottom (scan_bounds 5 opaque_3x3) = info_height opaque_3x3 - 1"
      by (simp add: opaque_3x3_def)
    have pos: "0 < info_width opaque_3x3" "0 < info_height opaque_3x3"
      by (simp_all add: opaque_3x3_def)
    show ?thesis using trim_stage_unmodified[of border_trim opaque_3x3 opaque_3x3, OF t refl refl pos] full by blast
  qed
  from 1 2 3 show ?thesis by blast
qed

text \<open>
  When sharp's own trim has cropped, its result is kept and the scan is not consulted. So an
  image without any pixel above alpha 5 is not always returned as it came: the faint five by
  five image comes back as its inner three by three block.
\<close>

lemma trim_stage_keeps_cropped:
  assumes "sharp_trim img = Inr tr"
    and "info_width tr \<noteq> info_width img \<or> info_height tr \<noteq> info_height img"
  shows "trim_stage sharp_trim img = Inr tr"
  using assms by (auto simp: trim_stage_def)

theorem trim_stage_faint_counterexample:
  "hasContent (inline_scan faint_5x5) = False \<and>
   scan_bounds 5 faint_5x5 =
     \<lparr> b_top = 5, b_bottom = 0, b_left = 5, b_right = 0, b_height = - 4, b_width = - 4 \<rparr> \<and>
   border_trim faint_5x5 = Inr faint_crop_3x3 \<and>
   trim_stage border_trim faint_5x5 = Inr faint_crop_3x3 \<and>
   info_width faint_crop_3x3 \<noteq> info_width faint_5x5 \<and>
   trim_stage border_trim faint_5x5 \<noteq> Inr faint_5x5"
  by code_simp

text \<open>
  The remaining case of the scan, a box that is neither degenerate nor the full frame, ends
  in the error of the headerless buffer.
\<close>

lemma trim_stage_extract_fails:
  "border_trim padded_4x4 = Inr padded_4x4 \<and>
   scan_bounds 5 padded_4x4 =
     \<lparr> b_top = 1, b_bottom = 2, b_left = 1, b_right = 2, b_height = 2, b_width = 2 \<rparr> \<and>
   trim_stage border_trim padded_4x4 = Inl ProcessingFailed"
  by code_simp

text \<open>The jersey example is cropped by sharp's own trim.\<close>

lemma trim_stage_crops_jersey: "trim_stage border_trim jersey_3x4 = Inr jersey_2x3"
  by code_simp

section \<open>Stacking\<close>

text \<open>
  The front layer's top content row in canvas space, \<open>frontTop + frontBounds.top\<close>, is
  \<open>gapBetweenImages\<close> rows below the back layer's bottom content row.
\<close>

lemma front_content_row:
  "frontTop bb fb gap + b_top fb = backBottomContentY bb + gap"
  by (simp add: frontTop_def)

text \<open>What a returned composite is made of, and the collar layer of a prepared collar.\<close>

lemma processJerseyImage_Inr:
  assumes "processJerseyImage sharp_trim img collarPath gap = Inr out"
  obtains tr c where
    "trim_stage sharp_trim img = Inr tr"
    "prepare_collar collarPath (info_width tr) = Inr c"
    "out = \<lparr> c_width = info_width tr,
             c_height = totalHeight (getContentBounds (flip tr)) (getContentBounds tr) gap,
             c_layers =
               [\<lparr> l_input = JerseySide (flip tr),
                  l_top = backTop (getContentBounds (flip tr)), l_left = 0 \<rparr>,
                \<lparr> l_input = JerseySide tr,
                  l_top = frontTop (getContentBounds (flip tr)) (getContentBounds tr) gap,
                  l_left = 0 \<rparr>]
               @ collar_layers c
                   (totalHeight (getContentBounds (flip tr)) (getContentBounds tr) gap) \<rparr>"
    "0 < info_width tr"
    "0 < totalHeight (getContentBounds (flip tr)) (getContentBounds tr) gap"
    "info_height tr \<le> totalHeight (getContentBounds (flip tr)) (getContentBounds tr) gap"
    "list_all (fits_canvas (info_width tr)
                 (totalHeight (getContentBounds (flip tr)) (getContentBounds tr) gap))
       (collar_layers c (totalHeight (getContentBounds (flip tr)) (getContentBounds tr) gap))"
  using assms
  by (auto simp: processJerseyImage_def Let_def sharp_composite_def fits_canvas_def
        split: sum.splits if_splits)


text \<open>
  C1. The spec, and the comment "0: perfect touch (no gap, no overlap)" in process-jersey.js,
  ask that with gap 0 the front layer's top content row is the back layer's bottom content
  row + 1, and with gap -18 that row - 17. The code computes something else, evaluated here on
  the 3x4 jersey, whose trimmed content is 3 rows high (rows 0 to 2 of both sides): the back
  layer's bottom content row is 2; with gap 0 the front layer's top content row is 2 as well,
  the same row and not row 3, the front layer is composited at offset 2, and the canvas is 5
  rows high and not 6; with gap -18 the front layer's top content row is 2 - 18, not 2 - 17.
\<close>

theorem stacking_gap_evaluation:
  "trim_stage border_trim jersey_3x4 = Inr jersey_2x3 \<and>
   getContentBounds jersey_2x3 =
     \<lparr> b_top = 0, b_bottom = 2, b_left = 0, b_right = 1, b_height = 3, b_width = 2 \<rparr> \<and>
   getContentBounds (flip jersey_2x3) =
     \<lparr> b_top = 0, b_bottom = 2, b_left = 0, b_right = 1, b_height = 3, b_width = 2 \<rparr> \<and>
   backBottomContentY (getContentBounds (flip jersey_2x3)) = 2 \<and>
   frontTop (getContentBounds (flip jersey_2x3)) (getContentBounds jersey_2x3) 0
     + b_top (getContentBounds jersey_2x3) = 2 \<and>
   totalHeight (getContentBounds (flip jersey_2x3)) (getContentBounds jersey_2x3) 0 = 5 \<and>
   processJerseyImage border_trim jersey_3x4 None 0 =
     Inr \<lparr> c_width = 2, c_height = 5,
           c_layers = [\<lparr> l_input = JerseySide (flip jersey_2x3), l_top = 0, l_left = 0 \<rparr>,
                       \<lparr> l_input = JerseySide jersey_2x3, l_top = 2, l_left = 0 \<rparr>] \<rparr> \<and>
   frontTop (getContentBounds (flip jersey_2x3)) (getContentBounds jersey_2x3) (-18)
     + b_top (getContentBounds jersey_2x3) = 2 - 18"
  by code_simp

text \<open>
  C2. Whenever \<open>processJerseyImage\<close> returns a composite, the width of the canvas is the
  width of the trimmed buffer, which the flipped back side shares, and the height of the
  canvas is \<open>frontTop + frontBounds.bottom + 1\<close>.
\<close>

theorem canvas_size:
  assumes "processJerseyImage sharp_trim img collarPath gap = Inr out"
    and "trim_stage sharp_trim img = Inr tr"
  shows "c_width out = info_width tr \<and>
         info_width (flip tr) = c_width out \<and>
         c_height out =
           frontTop (getContentBounds (flip tr)) (getContentBounds tr) gap
           + b_bottom (getContentBounds tr) + 1"
proof -
  from assms(1) obtain tr' c where
    "trim_stage sharp_trim img = Inr tr'"
    "out = \<lparr> c_width = info_width tr',
             c_height = totalHeight (getContentBounds (flip tr')) (getContentBounds tr') gap,
             c_layers =
               [\<lparr> l_input = JerseySide (flip tr'),
                  l_top = backTop (getContentBounds (flip tr')), l_left = 0 \<rparr>,
                \<lparr> l_input = JerseySide tr',
                  l_top = frontTop (getContentBounds (flip tr')) (getContentBounds tr') gap,
                  l_left = 0 \<rparr>]
               @ collar_layers c
                   (totalHeight (getContentBounds (flip tr')) (getContentBounds tr') gap) \<rparr>"
    by (rule processJerseyImage_Inr)
  with assms(2) show ?thesis by (simp add: totalHeight_def frontBottomContentY_def)
qed

theorem canvas_size_witness:
  "\<exists>out. processJerseyImage border_trim jersey_3x4 None (-1) = Inr out \<and>
      trim_stage border_trim jersey_3x4 = Inr jersey_2x3 \<and>
      c_width out = 2 \<and> c_height out = 4"
proof -
  have out: "processJerseyImage border_trim jersey_3x4 None (-1) =
    Inr \<lparr> c_width = 2, c_height = 4,
          c_layers = [\<lparr> l_input = JerseySide (flip jersey_2x3), l_top = 0, l_left = 0 \<rparr>,
                      \<lparr> l_input = JerseySide jersey_2x3, l_top = 1, l_left = 0 \<rparr>] \<rparr>"
    by code_simp
  have tr: "trim_stage border_trim jersey_3x4 = Inr jersey_2x3" by code_simp
  have w: "info_width jersey_2x3 = 2" by (simp add: jersey_2x3_def)
  have f: "frontTop (getContentBounds (flip jersey_2x3)) (getContentBounds jersey_2x3) (-1)
           + b_bottom (getContentBounds jersey_2x3) + 1 = 4"
    by code_simp
  show ?thesis using canvas_size[OF out tr] out tr w f by simp
qed




text \<open>
  With gap -3 the 3x4 jersey would have its front content at row -1 on a canvas of 2 rows,
  which does not hold the layers of 3 rows: the call fails.
\<close>

lemma stack_above_canvas_refused:
  "frontTop (getContentBounds (flip jersey_2x3)) (getContentBounds jersey_2x3) (-3)
     + b_top (getContentBounds jersey_2x3) = - 1 \<and>
   totalHeight (getContentBounds (flip jersey_2x3)) (getContentBounds jersey_2x3) (-3) = 2 \<and>
   processJerseyImage border_trim jersey_3x4 None (-3) = Inl ProcessingFailed"
  by code_simp

section \<open>The collar\<close>

lemma floor_half: "\<lfloor>real_of_int n * 0.5\<rfloor> = n div 2"
proof -
  have "real_of_int n * 0.5 = real_of_int n / real_of_int 2" by simp
  then show ?thesis by (simp only: floor_divide_of_int_eq)
qed

lemma floor_div_two: "\<lfloor>real_of_int n / 2\<rfloor> = n div 2"
  using floor_divide_of_int_eq[of n 2, where ?'a = real] by simp

text \<open>
  C9. For a readable collar of size \<open>W\<close> by \<open>H\<close>, the composite has a third layer, the collar
  resized to \<open>floor (W * 0.5)\<close> by \<open>floor (H * 0.5)\<close>, at the left offset
  \<open>floor ((canvas width - scaled width) / 2)\<close> and at the top offset
  \<open>floor ((canvas height - scaled height) / 2)\<close>, the canvas height being the final
  \<open>totalHeight\<close>.
\<close>

theorem collar_placement:
  assumes "processJerseyImage sharp_trim img (Some (CollarReadable W H)) gap = Inr out"
  shows "length (c_layers out) = 3 \<and>
         c_layers out ! 2 =
           \<lparr> l_input = CollarOverlay \<lfloor>real_of_int W * 0.5\<rfloor> \<lfloor>real_of_int H * 0.5\<rfloor>,
             l_top = \<lfloor>real_of_int (c_height out - \<lfloor>real_of_int H * 0.5\<rfloor>) / 2\<rfloor>,
             l_left = \<lfloor>real_of_int (c_width out - \<lfloor>real_of_int W * 0.5\<rfloor>) / 2\<rfloor> \<rparr>"
proof -
  from assms obtain tr c where
    c: "prepare_collar (Some (CollarReadable W H)) (info_width tr) = Inr c"
    and out: "out = \<lparr> c_width = info_width tr,
             c_height = totalHeight (getContentBounds (flip tr)) (getContentBounds tr) gap,
             c_layers =
               [\<lparr> l_input = JerseySide (flip tr),
                  l_top = backTop (getContentBounds (flip tr)), l_left = 0 \<rparr>,
                \<lparr> l_input = JerseySide tr,
                  l_top = frontTop (getContentBounds (flip tr)) (getContentBounds tr) gap,
                  l_left = 0 \<rparr>]
               @ collar_layers c
                   (totalHeight (getContentBounds (flip tr)) (getContentBounds tr) gap) \<rparr>"
    by (rule processJerseyImage_Inr)
  have "c = collar_resized W H (info_width tr)"
    using c by (simp add: prepare_collar_def split: if_splits)
  then show ?thesis
    unfolding floor_half floor_div_two out
    by (simp add: collar_resized_def collar_layers_def Let_def)
qed

theorem collar_placement_witness:
  "\<exists>out. processJerseyImage border_trim jersey_3x4 (Some (CollarReadable 3 5)) (-1) = Inr out \<and>
     c_width out = 2 \<and> c_height out = 4 \<and> length (c_layers out) = 3 \<and>
     c_layers out ! 2 = \<lparr> l_input = CollarOverlay 1 2, l_top = 1, l_left = 0 \<rparr>"
proof -
  have out: "processJerseyImage border_trim jersey_3x4 (Some (CollarReadable 3 5)) (-1) =
    Inr \<lparr> c_width = 2, c_height = 4,
          c_layers = [\<lparr> l_input = JerseySide (flip jersey_2x3), l_top = 0, l_left = 0 \<rparr>,
                      \<lparr> l_input = JerseySide jersey_2x3, l_top = 1, l_left = 0 \<rparr>,
                      \<lparr> l_input = CollarOverlay 1 2, l_top = 1, l_left = 0 \<rparr>] \<rparr>"
    by code_simp
  show ?thesis using collar_placement[OF out] out by (simp add: floor_half floor_div_two)
qed

text \<open>
  C4. A collar that is absent or unreadable should be skipped without an error. In
  \<open>processJerseyImage\<close> a collar file that exists and cannot be read makes the whole call
  fail, whatever the image and the gap; the same step of \<open>createTightJerseyTemplate\<close>
  leaves \<open>collarBuffer\<close> null, and no collar layer is added.
\<close>

theorem unreadable_collar_fails:
  "processJerseyImage sharp_trim img (Some CollarUnreadable) gap = Inl ProcessingFailed \<and>
   collarBuffer (script_prepare_collar CollarUnreadable width) = None \<and>
   collar_layers (script_prepare_collar CollarUnreadable width) canvasHeight = []"
proof -
  have "processJerseyImage sharp_trim img (Some CollarUnreadable) gap = Inl ProcessingFailed"
    by (cases "trim_stage sharp_trim img")
       (auto simp: processJerseyImage_def Let_def prepare_collar_def intro: error.exhaust)
  then show ?thesis
    by (simp add: script_prepare_collar_def collar_init_def collar_layers_def)
qed

text \<open>
  An absent collar is skipped by \<open>processJerseyImage\<close> too: a missing file behaves as the
  null path, and the composite has the two jersey layers only.
\<close>

lemma absent_collar_skipped:
  "processJerseyImage sharp_trim img (Some CollarMissing) gap =
     processJerseyImage sharp_trim img None gap \<and>
   (processJerseyImage sharp_trim img None gap = Inr out \<longrightarrow> length (c_layers out) = 2)"
  by (auto simp: processJerseyImage_def Let_def prepare_collar_def collar_init_def
        collar_layers_def sharp_composite_def split: sum.splits if_splits)

lemma absent_collar_example:
  "processJerseyImage border_trim jersey_3x4 (Some CollarMissing) (-1) =
    Inr \<lparr> c_width = 2, c_height = 4,
          c_layers = [\<lparr> l_input = JerseySide (flip jersey_2x3), l_top = 0, l_left = 0 \<rparr>,
                      \<lparr> l_input = JerseySide jersey_2x3, l_top = 1, l_left = 0 \<rparr>] \<rparr>"
  by code_simp

end
